theory Spec2Isabelle
  imports Complex_Main "HOL-Library.Word" "HOL-Library.Signed_Division" "HOL-Library.Multiset"
begin

section \<open>Data model of \<^verbatim>\<open>camera.go\<close>\<close>

text \<open>
  The embedding follows \<^verbatim>\<open>src/camera.go\<close> (package raycaster). Go's \<^verbatim>\<open>int\<close> is modelled by
  \<^typ>\<open>int\<close>: every integer that is used as an index is checked against the length of the
  slice it indexes, and the grid indices of the ray caster are compared with the map bounds
  before use, so the word size of the machine never decides a branch that is modelled here.
  A run-time panic of Go is a value of type \<open>error\<close>; a function that can panic returns
  \<open>error + 'a\<close> with \<open>Inl\<close> the panic.
\<close>

datatype error = IndexOutOfRange | NilDereference | DivideByZero | LenOutOfRange

definition bindE :: "error + 'a \<Rightarrow> ('a \<Rightarrow> error + 'b) \<Rightarrow> error + 'b" where
  "bindE m f = (case m of Inl e \<Rightarrow> Inl e | Inr v \<Rightarrow> f v)"

text \<open>Go slice indexing \<^verbatim>\<open>xs[i]\<close>: a panic outside \<^verbatim>\<open>0 <= i < len(xs)\<close>.\<close>

definition index :: "'a list \<Rightarrow> int \<Rightarrow> error + 'a" where
  "index xs i = (if 0 \<le> i \<and> i < int (length xs) then Inr (xs ! nat i) else Inl IndexOutOfRange)"

text \<open>Go slice assignment \<^verbatim>\<open>xs[i] = v\<close>.\<close>

definition store :: "'a list \<Rightarrow> int \<Rightarrow> 'a \<Rightarrow> error + 'a list" where
  "store xs i v = (if 0 \<le> i \<and> i < int (length xs) then Inr (xs[nat i := v]) else Inl IndexOutOfRange)"

subsection \<open>float64\<close>

text \<open>
  The ray and sprite casters compute with \<^verbatim>\<open>float64\<close>. Their control flow is modelled for
  an arbitrary carrier \<^typ>\<open>'f\<close> of floating-point values whose operations are the fields of
  a record, so that a theorem about a caster that quantifies over the record holds for
  every interpretation of the arithmetic, IEEE-754 binary64 with its infinities and NaN
  included. \<open>RealOps\<close> below interprets the operations by exact real arithmetic and is
  used where a concrete pose is evaluated. It knows no rounding, and a division by zero,
  which is infinite or NaN in \<^verbatim>\<open>float64\<close>, is zero in it: the poses evaluated below divide
  by no zero.
\<close>

record 'f fops =
  flit :: "real \<Rightarrow> 'f"          \<comment> \<open>the value of a floating-point literal\<close>
  fof_int :: "int \<Rightarrow> 'f"        \<comment> \<open>\<^verbatim>\<open>float64(i)\<close>\<close>
  fto_int :: "'f \<Rightarrow> int"        \<comment> \<open>\<^verbatim>\<open>int(f)\<close>\<close>
  fadd :: "'f \<Rightarrow> 'f \<Rightarrow> 'f"
  fsub :: "'f \<Rightarrow> 'f \<Rightarrow> 'f"
  fmul :: "'f \<Rightarrow> 'f \<Rightarrow> 'f"
  fdiv :: "'f \<Rightarrow> 'f \<Rightarrow> 'f"
  fneg :: "'f \<Rightarrow> 'f"
  fabs :: "'f \<Rightarrow> 'f"            \<comment> \<open>\<^verbatim>\<open>math.Abs\<close>\<close>
  fsqrt :: "'f \<Rightarrow> 'f"           \<comment> \<open>\<^verbatim>\<open>math.Sqrt\<close>\<close>
  flt :: "'f \<Rightarrow> 'f \<Rightarrow> bool"      \<comment> \<open>\<^verbatim>\<open>a < b\<close>\<close>

text \<open>Go converts a float to an integer by discarding the fraction (truncation towards zero).\<close>

definition trunc :: "real \<Rightarrow> int" where
  "trunc r = (if 0 \<le> r then \<lfloor>r\<rfloor> else \<lceil>r\<rceil>)"

definition RealOps :: "real fops" where
  "RealOps = \<lparr> flit = (\<lambda>r. r), fof_int = of_int, fto_int = trunc,
               fadd = (+), fsub = (-), fmul = (*), fdiv = (/),
               fneg = uminus, fabs = abs, fsqrt = sqrt, flt = (<) \<rparr>"

subsection \<open>Vectors, images, level buffers\<close>

text \<open>\<^verbatim>\<open>geom.Vector2\<close>, as camera.go uses it: two float64 fields \<^verbatim>\<open>X\<close> and \<^verbatim>\<open>Y\<close>.\<close>

record 'f Vector2 =
  X :: 'f
  Y :: 'f

text \<open>\<^verbatim>\<open>image.Rectangle\<close> with its corner points \<^verbatim>\<open>Min\<close> and \<^verbatim>\<open>Max\<close> flattened.\<close>

record Rectangle =
  MinX :: int
  MinY :: int
  MaxX :: int
  MaxY :: int

text \<open>\<^verbatim>\<open>color.RGBA\<close>: four bytes.\<close>

record RGBA =
  R :: "8 word"
  G :: "8 word"
  B :: "8 word"
  A :: "8 word"

text \<open>An \<^verbatim>\<open>*ebiten.Image\<close> is an opaque handle.\<close>

datatype Image = Image nat

text \<open>
  The struct \<^verbatim>\<open>level\<close> is declared outside camera.go; camera.go allocates and writes its
  four slices of pointers, one entry per screen column (\<^verbatim>\<open>createLevels\<close>,
  \<^verbatim>\<open>makeSpriteLevel\<close>). A nil pointer is \<open>None\<close>.
\<close>

record level =
  Sv :: "Rectangle option list"
  Cts :: "Rectangle option list"
  St :: "RGBA option list"
  CurrTex :: "Image option list"

text \<open>
  \<^verbatim>\<open>TextureHandler\<close>, as far as camera.go reads it: the wall textures and the pre-cut
  texture columns.
\<close>

record TextureHandler =
  Textures :: "Image list"
  slices :: "Rectangle option list"

text \<open>
  The interface \<^verbatim>\<open>Sprite\<close>: a sprite is the tuple of the values its methods return
  (\<^verbatim>\<open>Pos\<close>, \<^verbatim>\<open>PosZ\<close>, \<^verbatim>\<open>Texture\<close> with the result of its \<^verbatim>\<open>Size()\<close>, \<^verbatim>\<open>TextureRect\<close>,
  \<^verbatim>\<open>Scale\<close>, \<^verbatim>\<open>VerticalOffset\<close>).
\<close>

record 'f Sprite =
  Pos :: "'f Vector2"
  PosZ :: 'f
  Texture :: Image
  TextureSize :: "int \<times> int"
  TextureRect :: Rectangle
  Scale :: 'f
  VerticalOffset :: 'f

type_synonym grid = "int list list"

text \<open>
  The fields of \<^verbatim>\<open>Camera\<close> that the modelled functions read or write. The map object
  \<^verbatim>\<open>mapObj\<close> is the list of its level grids (\<^verbatim>\<open>NumLevels\<close> is its length, \<^verbatim>\<open>Level(i)\<close>
  its i-th entry). The floor and sky images, the floor raster, the tick rate and the
  semaphore are left out: no modelled function depends on them.
\<close>

record 'f Camera =
  pos :: "'f Vector2"
  posZ :: 'f
  dir :: "'f Vector2"
  plane :: "'f Vector2"
  w :: int
  h :: int
  pitch :: int
  fovAngle :: 'f
  fovDepth :: 'f
  mapObj :: "grid list"
  mapWidth :: int
  mapHeight :: int
  texSize :: int
  levels :: "level list"
  zBuffer :: "'f list"
  sprites :: "'f Sprite list"
  spriteOrder :: "int list"
  spriteDistance :: "'f list"
  spriteLvls :: "level option list"
  tex :: TextureHandler

section \<open>The column wall caster: \<^verbatim>\<open>castLevel\<close>\<close>

text \<open>The local variables of \<^verbatim>\<open>castLevel\<close> that the grid traversal reads and writes.\<close>

record 'f ray =
  rayDirX :: 'f
  rayDirY :: 'f
  rayPosX :: 'f
  rayPosY :: 'f
  mapX :: int
  mapY :: int
  sideDistX :: 'f
  sideDistY :: 'f
  deltaDistX :: 'f
  deltaDistY :: 'f
  stepX :: int
  stepY :: int
  hit :: int
  side :: int

text \<open>Lines 236-280: ray direction, start cell, delta distances, steps and first side distances.\<close>

definition initRay :: "'f fops \<Rightarrow> 'f Camera \<Rightarrow> int \<Rightarrow> 'f ray" where
  "initRay F c x =
    (let cameraX = fsub F (fdiv F (fmul F (flit F 2) (fof_int F x)) (fof_int F (w c))) (flit F 1);
         rdx = fadd F (X (dir c)) (fmul F (X (plane c)) cameraX);
         rdy = fadd F (Y (dir c)) (fmul F (Y (plane c)) cameraX);
         rpx = X (pos c);
         rpy = Y (pos c);
         mx = fto_int F rpx;
         my = fto_int F rpy;
         ddx = fabs F (fdiv F (flit F 1) rdx);
         ddy = fabs F (fdiv F (flit F 1) rdy);
         (sx, sdx) = (if flt F rdx (flit F 0)
                      then (-1, fmul F (fsub F rpx (fof_int F mx)) ddx)
                      else (1, fmul F (fsub F (fadd F (fof_int F mx) (flit F 1)) rpx) ddx));
         (sy, sdy) = (if flt F rdy (flit F 0)
                      then (-1, fmul F (fsub F rpy (fof_int F my)) ddy)
                      else (1, fmul F (fsub F (fadd F (fof_int F my) (flit F 1)) rpy) ddy))
     in \<lparr> rayDirX = rdx, rayDirY = rdy, rayPosX = rpx, rayPosY = rpy, mapX = mx, mapY = my,
          sideDistX = sdx, sideDistY = sdy, deltaDistX = ddx, deltaDistY = ddy,
          stepX = sx, stepY = sy, hit = 0, side = -1 \<rparr>)"

text \<open>The bounds test of lines 296 and 326.\<close>

definition inBounds :: "'f Camera \<Rightarrow> 'f ray \<Rightarrow> bool" where
  "inBounds c r \<longleftrightarrow> mapX r \<ge> 0 \<and> mapY r \<ge> 0 \<and> mapX r < mapWidth c \<and> mapY r < mapHeight c"

text \<open>\<^verbatim>\<open>grid[mapX][mapY]\<close>.\<close>

definition gridAt :: "grid \<Rightarrow> 'f ray \<Rightarrow> error + int" where
  "gridAt g r = bindE (index g (mapX r)) (\<lambda>col. index col (mapY r))"

text \<open>Lines 285-293: the jump to the next map square.\<close>

definition ddaMove :: "'f fops \<Rightarrow> 'f ray \<Rightarrow> 'f ray" where
  "ddaMove F r =
    (if flt F (sideDistX r) (sideDistY r)
     then r\<lparr> sideDistX := fadd F (sideDistX r) (deltaDistX r), mapX := mapX r + stepX r, side := 0 \<rparr>
     else r\<lparr> sideDistY := fadd F (sideDistY r) (deltaDistY r), mapY := mapY r + stepY r, side := 1 \<rparr>)"

text \<open>Lines 296-303: the hit test on the square just entered.\<close>

definition ddaCheck :: "'f Camera \<Rightarrow> grid \<Rightarrow> 'f ray \<Rightarrow> error + 'f ray" where
  "ddaCheck c g r =
    (if inBounds c r
     then bindE (gridAt g r) (\<lambda>v. Inr (if v > 0 then r\<lparr> hit := 1 \<rparr> else r))
     else Inr (r\<lparr> hit := 2 \<rparr>))"

text \<open>One iteration of the loop body, lines 284-303.\<close>

definition ddaStep :: "'f fops \<Rightarrow> 'f Camera \<Rightarrow> grid \<Rightarrow> 'f ray \<Rightarrow> error + 'f ray" where
  "ddaStep F c g r = ddaCheck c g (ddaMove F r)"

text \<open>
  The loop \<^verbatim>\<open>for hit == 0 { ... }\<close> of lines 283-304. Nothing in the definition bounds the
  number of iterations: a run that never leaves the loop is the value \<open>None\<close>.
\<close>

partial_function (option) ddaLoop :: "'f fops \<Rightarrow> 'f Camera \<Rightarrow> grid \<Rightarrow> 'f ray \<Rightarrow> (error + 'f ray) option" where
  "ddaLoop F c g r =
    (if hit r = 0
     then (case ddaStep F c g r of Inl e \<Rightarrow> Some (Inl e) | Inr r' \<Rightarrow> ddaLoop F c g r')
     else Some (Inr r))"

text \<open>Lines 236-304: the ray of screen column \<open>x\<close> traversed to its hit.\<close>

definition castRay :: "'f fops \<Rightarrow> 'f Camera \<Rightarrow> int \<Rightarrow> grid \<Rightarrow> (error + 'f ray) option" where
  "castRay F c x g = ddaLoop F c g (initRay F c x)"

text \<open>Lines 325-328: the texture number under the hit square, \<open>-1\<close> outside the map.\<close>

definition rawTexNum :: "'f Camera \<Rightarrow> grid \<Rightarrow> 'f ray \<Rightarrow> error + int" where
  "rawTexNum c g r =
    (if inBounds c r then bindE (gridAt g r) (\<lambda>v. Inr (v - 1)) else Inr (-1))"

text \<open>Lines 332-344: the correction of the texture number on side 0.\<close>

definition sideRemap :: "int \<Rightarrow> int \<Rightarrow> int" where
  "sideRemap sd texNum =
    (if sd = 0
     then (let t1 = (if texNum = 3 then 4 else if texNum = 4 then 3 else texNum)
           in (if t1 = 1 then 4 else if t1 = 2 then 3 else t1))
     else texNum)"

text \<open>Lines 346-350: the store into \<^verbatim>\<open>c.levels[levelNum].CurrTex[x]\<close>.\<close>

definition setCurrTex :: "'f Camera \<Rightarrow> int \<Rightarrow> int \<Rightarrow> int \<Rightarrow> error + 'f Camera" where
  "setCurrTex c levelNum x texNum =
    bindE (if texNum \<ge> 0 then bindE (index (Textures (tex c)) texNum) (\<lambda>t. Inr (Some t)) else Inr None)
      (\<lambda>v. bindE (index (levels c) levelNum)
        (\<lambda>lvl. bindE (store (CurrTex lvl) x v)
          (\<lambda>ct. bindE (store (levels c) levelNum (lvl\<lparr> CurrTex := ct \<rparr>))
            (\<lambda>ls. Inr (c\<lparr> levels := ls \<rparr>)))))"

text \<open>
  \<^verbatim>\<open>castLevel\<close> from its entry to line 350: the traversal, the texture number and the
  store of the column's texture. The result carries the locals at line 350 beside the
  camera. The rest of the function (lines 352-485: slice geometry, tint, z-buffer and the
  floor raster) reads these locals and does not write them, nor \<^verbatim>\<open>CurrTex\<close>; it is not
  modelled. The only caller passes \<^verbatim>\<open>c.levels[levelNum]\<close> for the parameter \<^verbatim>\<open>lvl\<close>.
\<close>

definition castLevel :: "'f fops \<Rightarrow> 'f Camera \<Rightarrow> int \<Rightarrow> grid \<Rightarrow> int \<Rightarrow> (error + 'f Camera \<times> 'f ray \<times> int) option" where
  "castLevel F c x g levelNum =
    (case castRay F c x g of
       None \<Rightarrow> None
     | Some (Inl e) \<Rightarrow> Some (Inl e)
     | Some (Inr r) \<Rightarrow>
         Some (bindE (rawTexNum c g r)
                (\<lambda>t0. let texNum = sideRemap (side r) t0
                      in bindE (setCurrTex c levelNum x texNum) (\<lambda>c'. Inr (c', r, texNum)))))"

text \<open>
  The number of map squares left ahead of an in-bounds ray: the distance of its cell to
  the map edge it moves towards, summed over both axes. It bounds the iterations the loop
  has left.
\<close>

definition remaining :: "'f Camera \<Rightarrow> 'f ray \<Rightarrow> nat" where
  "remaining c r = nat ((if stepX r = 1 then mapWidth c - mapX r else mapX r + 1)
                      + (if stepY r = 1 then mapHeight c - mapY r else mapY r + 1))"

text \<open>
  The correction table as the specification words it: 3 and 4 swap, 1 goes to 4, 2 goes
  to 3. \<open>remapSpec\<close> looks a texture number up in it and keeps a number that is not listed.
  It is compared with \<open>sideRemap\<close>, the cascade of the source.
\<close>

definition remapTable :: "(int \<times> int) list" where
  "remapTable = [(3, 4), (4, 3), (1, 4), (2, 3)]"

definition remapSpec :: "int \<Rightarrow> int" where
  "remapSpec t = (case map_of remapTable t of Some t' \<Rightarrow> t' | None \<Rightarrow> t)"

text \<open>
  A grid covers the map bounds of the camera when it has at least \<open>mapWidth\<close> columns and
  each of the first \<open>mapWidth\<close> columns has at least \<open>mapHeight\<close> cells. The source does not
  check this: \<^verbatim>\<open>NewCamera\<close> takes both bounds from the column count of level 0.
\<close>

definition wfGrid :: "'f Camera \<Rightarrow> grid \<Rightarrow> bool" where
  "wfGrid c g \<longleftrightarrow> mapWidth c \<le> int (length g)
     \<and> list_all (\<lambda>col. mapHeight c \<le> int (length col)) (take (nat (mapWidth c)) g)"

text \<open>
  The bound on the moves a ray has left, whatever its start cell: an in-bounds ray has
  \<open>remaining\<close> moves, and a ray that starts outside the map is inside after one move or
  stopped.
\<close>

definition budget :: "'f Camera \<Rightarrow> 'f ray \<Rightarrow> nat" where
  "budget c r = (if inBounds c r then remaining c r else nat (mapWidth c + mapHeight c) + 1)"

text \<open>
  What holds of the ray when the loop has stopped.
\<close>

definition hitPost :: "'f Camera \<Rightarrow> grid \<Rightarrow> 'f ray \<Rightarrow> bool" where
  "hitPost c g r' \<longleftrightarrow> side r' \<in> {0, 1} \<and> hit r' \<in> {1, 2}
       \<and> (hit r' = 2 \<longleftrightarrow> \<not> inBounds c r')
       \<and> (hit r' = 1 \<longrightarrow> (\<exists>v. gridAt g r' = Inr v \<and> 0 < v))"

text \<open>
  The run of the loop from a ray \<open>r\<close> in terms of the cells \<open>(ddaMove F ^^ k) r\<close> that the
  moves enter: the moves \<open>1\<close> to \<open>n\<close> enter in-bounds tiles \<open>\<le> 0\<close>, and move \<open>n + 1\<close> ends
  the loop on a tile \<open>> 0\<close>, outside the map, or in the panic of the grid access.
\<close>

definition stopsAfter :: "'f fops \<Rightarrow> 'f Camera \<Rightarrow> grid \<Rightarrow> 'f ray \<Rightarrow> nat \<Rightarrow> bool" where
  "stopsAfter F c g r n \<longleftrightarrow>
     (\<forall>k. 1 \<le> k \<and> k \<le> n \<longrightarrow>
        inBounds c ((ddaMove F ^^ k) r) \<and> (\<exists>v. gridAt g ((ddaMove F ^^ k) r) = Inr v \<and> v \<le> 0))
   \<and> (let e = (ddaMove F ^^ Suc n) r in
        (inBounds c e \<and> (\<exists>v. gridAt g e = Inr v \<and> 0 < v) \<and> ddaLoop F c g r = Some (Inr (e\<lparr> hit := 1 \<rparr>)))
      \<or> (\<not> inBounds c e \<and> ddaLoop F c g r = Some (Inr (e\<lparr> hit := 2 \<rparr>)))
      \<or> (inBounds c e \<and> (\<exists>err. gridAt g e = Inl err \<and> ddaLoop F c g r = Some (Inl err))))"

section \<open>Camera pose\<close>

text \<open>
  The pose functions are modelled in exact real arithmetic: \<^verbatim>\<open>float64\<close> is read as
  \<^typ>\<open>real\<close>, \<^verbatim>\<open>math.Cos\<close>, \<^verbatim>\<open>math.Sin\<close>, \<^verbatim>\<open>math.Sqrt\<close> as the real functions and
  \<^verbatim>\<open>math.Pow(x, 2)\<close> as the square. Rounding is outside the model.
\<close>

text \<open>
  Modelled from the spec: \<^verbatim>\<open>geom.Radians\<close> is declared in the package \<^verbatim>\<open>geom\<close>, which is not
  under src/; it converts the 70 degrees of the field of view to radians.
\<close>

definition Radians :: "real \<Rightarrow> real" where
  "Radians degrees = degrees * pi / 180"

text \<open>
  \<^verbatim>\<open>math.Atan2(y, x)\<close> of the Go library, on the reals: the angle of the point \<open>(x, y)\<close> in
  \<open>(-\<pi>, \<pi>]\<close>.
\<close>

definition atan2 :: "real \<Rightarrow> real \<Rightarrow> real" where
  "atan2 y x =
    (if 0 < x then arctan (y / x)
     else if x < 0 \<and> 0 \<le> y then arctan (y / x) + pi
     else if x < 0 \<and> y < 0 then arctan (y / x) - pi
     else if 0 < y then pi / 2
     else if y < 0 then - (pi / 2)
     else 0)"

text \<open>
  Modelled from the spec: \<^verbatim>\<open>a.Copy().Sub(b)\<close> of \<^verbatim>\<open>geom.Vector2\<close>, which is not under src/:
  the difference of two vectors, by component.
\<close>

definition vSub :: "real Vector2 \<Rightarrow> real Vector2 \<Rightarrow> real Vector2" where
  "vSub a b = \<lparr> X = X a - X b, Y = Y a - Y b \<rparr>"

text \<open>
  Lines 791-802: the angle of a vector, and the vector of an angle.
\<close>

definition GetAngleFromVec :: "real Vector2 \<Rightarrow> real" where
  "GetAngleFromVec d = atan2 (Y d) (X d)"

definition GetVecForAngleLength :: "real \<Rightarrow> real \<Rightarrow> real Vector2" where
  "GetVecForAngleLength angle len = \<lparr> X = len * cos angle, Y = len * sin angle \<rparr>"

definition GetVecForAngle :: "real Camera \<Rightarrow> real \<Rightarrow> real Vector2" where
  "GetVecForAngle c angle = \<lparr> X = fovDepth c * cos angle, Y = fovDepth c * sin angle \<rparr>"

text \<open>
  The Euclidean length of a vector, as line 816 computes it.
\<close>

definition vecLength :: "real Vector2 \<Rightarrow> real" where
  "vecLength d = sqrt ((X d)\<^sup>2 + (Y d)\<^sup>2)"

text \<open>
  Lines 813-821.
\<close>

definition GetVecForFov :: "real Camera \<Rightarrow> real Vector2 \<Rightarrow> real Vector2" where
  "GetVecForFov c d =
    (let angle = GetAngleFromVec d;
         len = vecLength d;
         hypotenuse = len / cos (fovAngle c / 2)
     in vSub d (GetVecForAngleLength (angle + fovAngle c / 2) hypotenuse))"


text \<open>
  Lines 618-630. \<^verbatim>\<open>sliceView\<close> is declared outside camera.go; it is a parameter here.
\<close>

definition createLevels :: "(int \<Rightarrow> int \<Rightarrow> Rectangle option list) \<Rightarrow> int \<Rightarrow> int \<Rightarrow> int \<Rightarrow> level list" where
  "createLevels sliceView cw ch numLevels =
     replicate (nat numLevels)
       \<lparr> Sv = sliceView cw ch, Cts = replicate (nat cw) None, St = replicate (nat cw) None,
         CurrTex = replicate (nat cw) None \<rparr>"

text \<open>
  \<^verbatim>\<open>NewCamera\<close>, lines 97-140: the camera as it is set up before the first
  \<^verbatim>\<open>c.raycast()\<close> of line 143, which then casts every column of this camera. The fields
  are assigned in the order of the source. \<^verbatim>\<open>make\<close> panics on a negative width, and
  \<^verbatim>\<open>mapObj.Level(0)\<close> fails on a map without a level.
\<close>

definition NewCamera_init ::
  "(int \<Rightarrow> int \<Rightarrow> Rectangle option list) \<Rightarrow> int \<Rightarrow> int \<Rightarrow> int \<Rightarrow> grid list \<Rightarrow> TextureHandler
     \<Rightarrow> error + real Camera" where
  "NewCamera_init sliceView width height ts m th =
    (let c0 = \<lparr> pos = \<lparr> X = 1, Y = 1 \<rparr>, posZ = 0, dir = \<lparr> X = 0, Y = 0 \<rparr>, plane = \<lparr> X = 0, Y = 0 \<rparr>,
                w = 0, h = 0, pitch = 0, fovAngle = Radians 70, fovDepth = 1,
                mapObj = [], mapWidth = 0, mapHeight = 0, texSize = 0, levels = [],
                zBuffer = [], sprites = [], spriteOrder = [], spriteDistance = [],
                spriteLvls = [], tex = \<lparr> Textures = [], slices = [] \<rparr> \<rparr>;
         c1 = c0\<lparr> dir := GetVecForAngle c0 0 \<rparr>;
         c2 = c1\<lparr> plane := GetVecForFov c1 (dir c1) \<rparr>;
         c3 = c2\<lparr> w := width, h := height, pitch := 0, texSize := ts, tex := th \<rparr>;
         c4 = c3\<lparr> levels := createLevels sliceView (w c3) (h c3) (int (length m)),
                   zBuffer := replicate (nat width) 0, mapObj := m \<rparr>
     in if width < 0 then Inl LenOutOfRange
        else bindE (index m 0)
          (\<lambda>firstLevel. Inr (c4\<lparr> mapWidth := int (length firstLevel), mapHeight := int (length firstLevel),
                                 sprites := [], spriteLvls := replicate 16 None \<rparr>)))"

text \<open>
  The tangent of half the field of view, 35 degrees.
\<close>

definition halfFov :: real where "halfFov = tan (Radians 70 / 2)"

text \<open>
  The ray of screen column 0 for the start pose and viewport width 1, and the same ray
  after one, two and three moves.
\<close>

definition ray0 :: "real ray" where
  "ray0 = \<lparr> rayDirX = 1, rayDirY = halfFov, rayPosX = 1, rayPosY = 1, mapX = 1, mapY = 1,
            sideDistX = 1, sideDistY = 1 / halfFov, deltaDistX = 1, deltaDistY = 1 / halfFov,
            stepX = 1, stepY = 1, hit = 0, side = -1 \<rparr>"

definition ray1 :: "real ray" where
  "ray1 = ray0\<lparr> sideDistX := 2, mapX := 2, side := 0 \<rparr>"

definition ray2 :: "real ray" where
  "ray2 = ray1\<lparr> sideDistY := 2 / halfFov, mapY := 2, side := 1 \<rparr>"

definition ray3 :: "real ray" where
  "ray3 = ray2\<lparr> sideDistX := 3, mapX := 3, side := 0 \<rparr>"

text \<open>
  Concrete inputs for the closed theorems: a slice view, a texture handler with five
  textures, the camera that \<^verbatim>\<open>NewCamera\<close> sets up for width 1 on a one-level map, and four
  3x3 grids.
\<close>

definition demoSliceView :: "int \<Rightarrow> int \<Rightarrow> Rectangle option list" where
  "demoSliceView cw ch = map (\<lambda>i. Some \<lparr> MinX = int i, MinY = 0, MaxX = int i + 1, MaxY = ch \<rparr>) [0..<nat cw]"

definition demoTex :: TextureHandler where
  "demoTex = \<lparr> Textures = [Image 0, Image 1, Image 2, Image 3, Image 4], slices = [] \<rparr>"

definition demoCamera :: "grid \<Rightarrow> real Camera" where
  "demoCamera g = projr (NewCamera_init demoSliceView 1 1 64 [g] demoTex)"

definition wallGrid :: grid where "wallGrid = [[0, 0, 0], [0, 0, 0], [0, 0, 1]]"
definition emptyGrid :: grid where "emptyGrid = [[0, 0, 0], [0, 0, 0], [0, 0, 0]]"
definition negGrid :: grid where "negGrid = [[0, 0, 0], [0, 0, 0], [0, -1, 1]]"
definition texGrid :: grid where "texGrid = [[0, 0, 0], [0, 0, 0], [0, 4, 0]]"

section \<open>Camera movement\<close>

text \<open>
  The constant of line 20.
\<close>

definition edgeDistance :: real where
  "edgeDistance = 1 / 10"

text \<open>
  Lines 709-748. The two \<^verbatim>\<open>switch\<close> statements are the two conditionals on the pairs
  \<open>(newX, ix)\<close> and \<open>(newY, iy)\<close>; the test of line 715 compares \<open>posY\<close> with \<open>moveY\<close>.
\<close>

definition getValidCameraMove :: "real Camera \<Rightarrow> real \<Rightarrow> real \<Rightarrow> bool \<Rightarrow> error + real \<times> real" where
  "getValidCameraMove c moveX moveY checkAlternate =
    (let posX = X (pos c); posY = Y (pos c); newX = moveX; newY = moveY
     in if posX = newX \<and> posY = moveY then Inr (posX, posY)
        else
          (let ix = trunc newX; iy = trunc newY;
               (newX, ix) =
                 (if ix < 0 \<or> newX < 0 then (edgeDistance, 0)
                  else if ix \<ge> mapWidth c
                       then (of_int (mapWidth c) - edgeDistance, trunc (of_int (mapWidth c) - edgeDistance))
                       else (newX, ix));
               (newY, iy) =
                 (if iy < 0 \<or> newY < 0 then (edgeDistance, 0)
                  else if iy \<ge> mapHeight c
                       then (of_int (mapHeight c) - edgeDistance, trunc (of_int (mapHeight c) - edgeDistance))
                       else (newY, iy))
           in bindE (index (mapObj c) 0)
                (\<lambda>firstLevel. bindE (index firstLevel ix)
                  (\<lambda>col. bindE (index col iy)
                    (\<lambda>v. Inr (if v \<le> 0 then (newX, newY) else (posX, posY)))))))"

text \<open>
  Lines 784-788 and 824-828.
\<close>

definition MoveCamera :: "real Camera \<Rightarrow> real \<Rightarrow> error + real Camera" where
  "MoveCamera c mSpeed =
    (let mx = X (pos c) + X (dir c) * mSpeed;
         my = Y (pos c) + Y (dir c) * mSpeed
     in bindE (getValidCameraMove c mx my True) (\<lambda>(px, py). Inr (c\<lparr> pos := \<lparr> X = px, Y = py \<rparr> \<rparr>)))"

definition StrafeCamera :: "real Camera \<Rightarrow> real \<Rightarrow> error + real Camera" where
  "StrafeCamera c sSpeed =
    (let sx = X (pos c) + X (plane c) * sSpeed;
         sy = Y (pos c) + Y (plane c) * sSpeed
     in bindE (getValidCameraMove c sx sy True) (\<lambda>(px, py). Inr (c\<lparr> pos := \<lparr> X = px, Y = py \<rparr> \<rparr>)))"

text \<open>
  The clamp of one coordinate in the words of the specification: a coordinate below 0
  goes to \<open>edgeDistance\<close>, a coordinate at or beyond the map size \<open>n\<close> goes to
  \<open>n - edgeDistance\<close>, and a coordinate inside \<open>[0, n)\<close> stays. \<open>tileAt\<close> is the level-0
  tile under a cell.
\<close>

definition clampCoord :: "int \<Rightarrow> real \<Rightarrow> real" where
  "clampCoord n v = (if v < 0 then edgeDistance else if of_int n \<le> v then of_int n - edgeDistance else v)"

definition tileAt :: "grid \<Rightarrow> int \<Rightarrow> int \<Rightarrow> error + int" where
  "tileAt g i j = bindE (index g i) (\<lambda>col. index col j)"

section \<open>Distance sort: \<^verbatim>\<open>combSort\<close>\<close>

text \<open>
  Lines 687-693: the next gap. Go's integer division truncates towards zero (\<open>sdiv\<close>).
\<close>

definition shrinkGap :: "int \<Rightarrow> int" where
  "shrinkGap gap =
    (let g = (gap * 10) sdiv 13;
         g = (if g = 9 \<or> g = 10 then 11 else g)
     in if g < 1 then 1 else g)"

text \<open>
  Lines 696-704: one pass over the pairs \<open>(i, i + gap)\<close>, from index \<open>i\<close> on. The state is
  the two slices and the flag \<^verbatim>\<open>swapped\<close>. The parameter \<^verbatim>\<open>dist\<close> is called \<open>dists\<close>
  here. The distances are of any linearly ordered type: \<^verbatim>\<open>float64\<close> without NaN,
  whose comparison is a linear order.
\<close>

function combPass :: "int \<Rightarrow> int \<Rightarrow> int \<Rightarrow> int list \<times> 'a::linorder list \<times> bool
    \<Rightarrow> error + int list \<times> 'a list \<times> bool" where
  "combPass amount gap i (order, dists, swapped) =
    (if i < amount - gap
     then (let j = i + gap
           in case index dists i of Inl e \<Rightarrow> Inl e
              | Inr di \<Rightarrow>
                  (case index dists j of Inl e \<Rightarrow> Inl e
                   | Inr dj \<Rightarrow>
                       if di < dj
                       then (case index order i of Inl e \<Rightarrow> Inl e
                             | Inr oi \<Rightarrow>
                                 (case index order j of Inl e \<Rightarrow> Inl e
                                  | Inr oj \<Rightarrow>
                                      combPass amount gap (i + 1)
                                        (order[nat i := oj, nat j := oi], dists[nat i := dj, nat j := di], True)))
                       else combPass amount gap (i + 1) (order, dists, swapped)))
     else Inr (order, dists, swapped))"
  by pat_completeness auto
termination
  by (relation "measure (\<lambda>(amount, gap, i, s). nat (amount - gap - i))") auto

text \<open>
  The number of pairs of positions \<open>i < j\<close> whose elements ascend. A swap of two
  neighbours that ascend lowers it by one, which bounds the passes with gap 1.
\<close>

fun ascents :: "'a::linorder list \<Rightarrow> nat" where
  "ascents [] = 0"
| "ascents (x # xs) = length (filter (\<lambda>y. x < y) xs) + ascents xs"

section \<open>The sprite caster: \<^verbatim>\<open>castSprite\<close>\<close>

text \<open>
  The locals of \<^verbatim>\<open>castSprite\<close> that are fixed before its loop over the screen columns
  (lines 495-545).
\<close>

record 'f spriteVars =
  transformX :: 'f
  transformY :: 'f
  spriteScreenX :: int
  vMoveScreen :: int
  spriteHeight :: int
  drawStartY :: int
  drawEndY :: int
  spriteWidth :: int
  drawStartX :: int
  drawEndX :: int
  spriteTex :: Image
  spriteTexRect :: Rectangle
  spriteTexWidth :: int
  spriteTexHeight :: int

text \<open>
  Lines 495-545. Go's integer division truncates towards zero (\<open>sdiv\<close>), and the unary
  minus of \<^verbatim>\<open>-spriteHeight/2\<close> applies before the division.
\<close>

definition castSpriteVars :: "'f fops \<Rightarrow> 'f Camera \<Rightarrow> 'f Sprite \<Rightarrow> 'f spriteVars" where
  "castSpriteVars F c sprite =
    (let spriteX = fsub F (X (Pos sprite)) (X (pos c));
         spriteY = fsub F (Y (Pos sprite)) (Y (pos c));
         (tw, th) = TextureSize sprite;
         invDet = fdiv F (flit F 1)
                    (fsub F (fmul F (X (plane c)) (Y (dir c))) (fmul F (X (dir c)) (Y (plane c))));
         tX = fmul F invDet (fsub F (fmul F (Y (dir c)) spriteX) (fmul F (X (dir c)) spriteY));
         tY = fmul F invDet (fadd F (fmul F (fneg F (Y (plane c))) spriteX) (fmul F (X (plane c)) spriteY));
         ssx = fto_int F (fmul F (fdiv F (fof_int F (w c)) (flit F 2)) (fadd F (flit F 1) (fdiv F tX tY)));
         uDiv = fdiv F (flit F 1) (Scale sprite);
         vDiv = fdiv F (flit F 1) (Scale sprite);
         vMove = fadd F (fmul F (fmul F (fneg F (fsub F (PosZ sprite) (flit F (1 / 2)))) (fof_int F (texSize c)))
                           (flit F 2))
                   (VerticalOffset sprite);
         vms = fto_int F (fdiv F vMove tY) + pitch c + fto_int F (fdiv F (posZ c) tY);
         sh = fto_int F (fdiv F (fabs F (fdiv F (fof_int F (h c)) tY)) vDiv);
         dsy0 = (- sh) sdiv 2 + h c sdiv 2 + vms;
         dsy = (if dsy0 < 0 then 0 else dsy0);
         dey0 = sh sdiv 2 + h c sdiv 2 + vms;
         dey = (if dey0 \<ge> h c then h c - 1 else dey0);
         sw = fto_int F (fdiv F (fabs F (fdiv F (fof_int F (h c)) tY)) uDiv);
         dsx0 = (- sw) sdiv 2 + ssx;
         dex0 = sw sdiv 2 + ssx;
         dsx = (if dsx0 < 0 then 0 else dsx0);
         dex = (if dex0 \<ge> w c then w c - 1 else dex0)
     in \<lparr> transformX = tX, transformY = tY, spriteScreenX = ssx, vMoveScreen = vms,
          spriteHeight = sh, drawStartY = dsy, drawEndY = dey, spriteWidth = sw,
          drawStartX = dsx, drawEndX = dex, spriteTex = Texture sprite,
          spriteTexRect = TextureRect sprite, spriteTexWidth = tw, spriteTexHeight = th \<rparr>)"

text \<open>
  The state that the loop over the columns changes: the sprite level slots of the camera,
  the flag \<^verbatim>\<open>renderSprite\<close>, and \<^verbatim>\<open>spriteSlices\<close> with its capacity (nil at first).
\<close>

record spriteLoop =
  sLvls :: "level option list"
  renderSprite :: bool
  spriteSlices :: "Rectangle option list \<times> int"

text \<open>
  Line 563, the visibility test of a column. \<^verbatim>\<open>&&\<close> evaluates \<^verbatim>\<open>c.zBuffer[stripe]\<close> only
  when the first three conjuncts hold.
\<close>

definition stripeVisible :: "'f fops \<Rightarrow> 'f Camera \<Rightarrow> 'f spriteVars \<Rightarrow> int \<Rightarrow> error + bool" where
  "stripeVisible F c v stripe =
    (if flt F (flit F 0) (transformY v) \<and> stripe > 0 \<and> stripe < w c
     then bindE (index (zBuffer c) stripe) (\<lambda>z. Inr (flt F (transformY v) z))
     else Inr False)"

text \<open>The dereference of a pointer: a panic on nil.\<close>

definition deref :: "'a option \<Rightarrow> error + 'a" where
  "deref p = (case p of None \<Rightarrow> Inl NilDereference | Some x \<Rightarrow> Inr x)"

text \<open>
  Lines 659-669. \<^verbatim>\<open>make\<close> panics on a negative length. \<^verbatim>\<open>sliceView\<close> is declared outside
  camera.go and is a parameter.
\<close>

definition makeSpriteLevel ::
  "(int \<Rightarrow> int \<Rightarrow> Rectangle option list) \<Rightarrow> 'f Camera \<Rightarrow> int \<Rightarrow> level option list
     \<Rightarrow> error + level \<times> level option list" where
  "makeSpriteLevel sliceView c spriteOrdIndex lvls =
    (let spriteLvl = \<lparr> Sv = sliceView (w c) (h c), Cts = replicate (nat (w c)) None,
                        St = replicate (nat (w c)) None, CurrTex = replicate (nat (w c)) None \<rparr>
     in if w c < 0 then Inl LenOutOfRange
        else bindE (store lvls spriteOrdIndex (Some spriteLvl)) (\<lambda>ls. Inr (spriteLvl, ls)))"

text \<open>
  Modelled from the spec: \<^verbatim>\<open>geom.ClampInt\<close> is not under src/; the lighting formula of the
  specification clamps its value to the range from 0 to 255.
\<close>

definition ClampInt :: "int \<Rightarrow> int \<Rightarrow> int \<Rightarrow> int" where
  "ClampInt v lo hi = (if v < lo then lo else if v > hi then hi else v)"

text \<open>Lines 602-608: the tint of a sprite column, by distance.\<close>

definition spriteTint :: "'f fops \<Rightarrow> 'f \<Rightarrow> RGBA" where
  "spriteTint F tY =
    (let shadowDepth = fmul F (fsqrt F tY) (flit F (- 100));
         sunLight = flit F 300;
         ch = word_of_int (ClampInt (fto_int F (fadd F (fadd F (fof_int F 255) shadowDepth) sunLight)) 0 255)
     in \<lparr> R = ch, G = ch, B = ch, A = 255 \<rparr>)"

text \<open>
  Lines 590-608: the writes of one visible column into the sprite level. The rectangle
  \<^verbatim>\<open>spriteSlices[texX]\<close> is shared by the columns of the same \<open>texX\<close>; the two fields written
  through it do not depend on the column, so each column holds the rectangle by value.
\<close>

definition writeStripe ::
  "'f fops \<Rightarrow> 'f spriteVars \<Rightarrow> int \<Rightarrow> int \<Rightarrow> int \<Rightarrow> int \<Rightarrow> Rectangle option list \<Rightarrow> level option
     \<Rightarrow> error + level" where
  "writeStripe F v stripe texX texStartY texEndY slcs spriteLvl =
    bindE (deref spriteLvl) (\<lambda>lvl.
    bindE (index slcs texX) (\<lambda>sl.
    bindE (store (Cts lvl) stripe sl) (\<lambda>cts0.
    bindE (deref sl) (\<lambda>rect.
    bindE (store cts0 stripe
            (Some (rect\<lparr> MinY := MinY (spriteTexRect v) + texStartY + 1,
                          MaxY := MinY (spriteTexRect v) + texEndY \<rparr>))) (\<lambda>cts.
    bindE (store (CurrTex lvl) stripe (Some (spriteTex v))) (\<lambda>ct.
    bindE (index (Sv lvl) stripe) (\<lambda>svp.
    bindE (deref svp) (\<lambda>svr.
    bindE (store (Sv lvl) stripe (Some (svr\<lparr> MinY := drawStartY v + 1, MaxY := drawEndY v \<rparr>))) (\<lambda>sv.
    bindE (store (St lvl) stripe (Some (spriteTint F (transformY v)))) (\<lambda>st.
    Inr (lvl\<lparr> Sv := sv, Cts := cts, St := st, CurrTex := ct \<rparr>)))))))))))"

text \<open>Line 573: the texture column of a screen column.\<close>

definition stripeTexX :: "'f spriteVars \<Rightarrow> int \<Rightarrow> int" where
  "stripeTexX v stripe =
    ((256 * (stripe - ((- spriteWidth v) sdiv 2 + spriteScreenX v)) * spriteTexWidth v)
       sdiv spriteWidth v) sdiv 256"

text \<open>Lines 580-584: the first and the last texture row of the sprite's vertical span.\<close>

definition stripeTexStartY :: "'f Camera \<Rightarrow> 'f spriteVars \<Rightarrow> int" where
  "stripeTexStartY c v =
    (let d = (drawStartY v - vMoveScreen v) * 256 - h c * 128 + spriteHeight v * 128
     in ((d * spriteTexWidth v) sdiv spriteHeight v) sdiv 256)"

definition stripeTexEndY :: "'f Camera \<Rightarrow> 'f spriteVars \<Rightarrow> int" where
  "stripeTexEndY c v =
    (let d = (drawEndY v - 1 - vMoveScreen v) * 256 - h c * 128 + spriteHeight v * 128
     in ((d * spriteTexWidth v) sdiv spriteHeight v) sdiv 256)"

text \<open>
  Lines 563-609: the body of the loop for one column. \<^verbatim>\<open>continue\<close> leaves the state as
  it is after the level has been made. An integer division by zero panics.
\<close>

definition castSpriteStripe ::
  "(int \<Rightarrow> int \<Rightarrow> Rectangle option list) \<Rightarrow> (int \<Rightarrow> int \<Rightarrow> int \<Rightarrow> int \<Rightarrow> Rectangle option list \<times> int)
     \<Rightarrow> 'f fops \<Rightarrow> 'f Camera \<Rightarrow> 'f spriteVars \<Rightarrow> int \<Rightarrow> int \<Rightarrow> spriteLoop \<Rightarrow> error + spriteLoop" where
  "castSpriteStripe sliceView makeSlices F c v spriteOrdIndex stripe s =
    bindE (stripeVisible F c v stripe) (\<lambda>vis.
      if \<not> vis then Inr s
      else
        bindE (if \<not> renderSprite s
               then bindE (makeSpriteLevel sliceView c spriteOrdIndex (sLvls s)) (\<lambda>(lvl, ls).
                      Inr (Some lvl,
                           s\<lparr> sLvls := ls, renderSprite := True,
                              spriteSlices := makeSlices (spriteTexWidth v) (spriteTexHeight v)
                                                (MinX (spriteTexRect v)) (MinY (spriteTexRect v)) \<rparr>))
               else bindE (index (sLvls s) spriteOrdIndex) (\<lambda>l. Inr (l, s)))
          (\<lambda>(spriteLvl, s1).
             if spriteWidth v = 0 then Inl DivideByZero
             else if stripeTexX v stripe < 0 \<or> stripeTexX v stripe \<ge> snd (spriteSlices s1) then Inr s1
             else if spriteHeight v = 0 then Inl DivideByZero
             else if stripeTexStartY c v < 0 \<or> stripeTexStartY c v \<ge> stripeTexEndY c v
                       \<or> stripeTexEndY c v \<ge> spriteTexWidth v then Inr s1
             else bindE (writeStripe F v stripe (stripeTexX v stripe) (stripeTexStartY c v)
                           (stripeTexEndY c v) (fst (spriteSlices s1)) spriteLvl)
                    (\<lambda>lvl'. bindE (store (sLvls s1) spriteOrdIndex (Some lvl'))
                      (\<lambda>ls. Inr (s1\<lparr> sLvls := ls \<rparr>)))))"

text \<open>Lines 557-610: the loop \<^verbatim>\<open>for stripe := drawStartX; stripe < drawEndX; stripe++\<close>.\<close>

function castSpriteLoop ::
  "(int \<Rightarrow> int \<Rightarrow> Rectangle option list) \<Rightarrow> (int \<Rightarrow> int \<Rightarrow> int \<Rightarrow> int \<Rightarrow> Rectangle option list \<times> int)
     \<Rightarrow> 'f fops \<Rightarrow> 'f Camera \<Rightarrow> 'f spriteVars \<Rightarrow> int \<Rightarrow> int \<Rightarrow> spriteLoop \<Rightarrow> error + spriteLoop" where
  "castSpriteLoop sliceView makeSlices F c v spriteOrdIndex stripe s =
    (if stripe < drawEndX v
     then (case castSpriteStripe sliceView makeSlices F c v spriteOrdIndex stripe s of
             Inl e \<Rightarrow> Inl e
           | Inr s' \<Rightarrow> castSpriteLoop sliceView makeSlices F c v spriteOrdIndex (stripe + 1) s')
     else Inr s)"
  by pat_completeness auto
termination
  by (relation "measure (\<lambda>(sliceView, makeSlices, F, c, v, spriteOrdIndex, stripe, s). nat (drawEndX v - stripe))") auto

text \<open>Lines 677-679.\<close>

definition clearSpriteLevel :: "level option list \<Rightarrow> int \<Rightarrow> error + level option list" where
  "clearSpriteLevel lvls spriteOrdIndex = store lvls spriteOrdIndex None"

text \<open>Lines 488-615.\<close>

definition castSprite ::
  "(int \<Rightarrow> int \<Rightarrow> Rectangle option list) \<Rightarrow> (int \<Rightarrow> int \<Rightarrow> int \<Rightarrow> int \<Rightarrow> Rectangle option list \<times> int)
     \<Rightarrow> 'f fops \<Rightarrow> 'f Camera \<Rightarrow> int \<Rightarrow> error + 'f Camera" where
  "castSprite sliceView makeSlices F c spriteOrdIndex =
    bindE (index (spriteOrder c) spriteOrdIndex) (\<lambda>oi.
    bindE (index (sprites c) oi) (\<lambda>sprite.
      (let v = castSpriteVars F c sprite
       in bindE (castSpriteLoop sliceView makeSlices F c v spriteOrdIndex (drawStartX v)
                   \<lparr> sLvls = spriteLvls c, renderSprite = False, spriteSlices = ([], 0) \<rparr>)
            (\<lambda>s. if \<not> renderSprite s
                 then bindE (clearSpriteLevel (sLvls s) spriteOrdIndex) (\<lambda>ls. Inr (c\<lparr> spriteLvls := ls \<rparr>))
                 else Inr (c\<lparr> spriteLvls := sLvls s \<rparr>)))))"

text \<open>
  Column 0 of a sprite level of the viewport width holds no texture, no texture slice and
  no tint. \<open>slotClear\<close> says so of the level in the slot of the sprite once the loop has
  made one.
\<close>

definition column0Clear :: "int \<Rightarrow> level \<Rightarrow> bool" where
  "column0Clear cw lvl \<longleftrightarrow>
     CurrTex lvl ! 0 = None \<and> Cts lvl ! 0 = None \<and> St lvl ! 0 = None
   \<and> length (CurrTex lvl) = nat cw \<and> length (Cts lvl) = nat cw \<and> length (St lvl) = nat cw"

definition slotClear :: "int \<Rightarrow> int \<Rightarrow> spriteLoop \<Rightarrow> bool" where
  "slotClear cw spriteOrdIndex s \<longleftrightarrow>
     (renderSprite s \<longrightarrow> (\<exists>lvl. index (sLvls s) spriteOrdIndex = Inr (Some lvl) \<and> column0Clear cw lvl))"

text \<open>
  Concrete inputs for the closed theorems on sprites: a slicing function, a sprite two
  cells ahead of the start pose with a 4x4 texture, and the camera of an 8x8 viewport with
  that sprite and a z-buffer that holds the same wall distance in every column.
\<close>

definition demoMakeSlices :: "int \<Rightarrow> int \<Rightarrow> int \<Rightarrow> int \<Rightarrow> Rectangle option list \<times> int" where
  "demoMakeSlices tw th rx ry =
    (map (\<lambda>i. Some \<lparr> MinX = rx + int i, MinY = ry, MaxX = rx + int i + 1, MaxY = ry + th \<rparr>) [0..<nat tw], tw)"

definition demoSprite :: "real \<Rightarrow> real Sprite" where
  "demoSprite sc = \<lparr> Pos = \<lparr> X = 3, Y = 1 \<rparr>, PosZ = 1 / 2, Texture = Image 7, TextureSize = (4, 4),
                     TextureRect = \<lparr> MinX = 0, MinY = 0, MaxX = 4, MaxY = 4 \<rparr>,
                     Scale = sc, VerticalOffset = 0 \<rparr>"

definition spriteCamera :: "real \<Rightarrow> real \<Rightarrow> real Camera" where
  "spriteCamera sc z =
    (projr (NewCamera_init demoSliceView 8 8 64 [emptyGrid] demoTex))
      \<lparr> zBuffer := replicate 8 z, sprites := [demoSprite sc], spriteOrder := [0] \<rparr>"

text \<open>
  The locals of \<^verbatim>\<open>castSprite\<close> for that sprite at scale 4, whose extent covers the screen
  columns from 0 on, and the loop states from which no write of the loop can panic.
\<close>

definition wideVars :: "real spriteVars" where
  "wideVars = \<lparr> transformX = 0, transformY = 2, spriteScreenX = 4, vMoveScreen = 0, spriteHeight = 16,
       drawStartY = 0, drawEndY = 7, spriteWidth = 16, drawStartX = 0, drawEndX = 7,
       spriteTex = Image 7, spriteTexRect = \<lparr> MinX = 0, MinY = 0, MaxX = 4, MaxY = 4 \<rparr>,
       spriteTexWidth = 4, spriteTexHeight = 4 \<rparr>"

definition readyState :: "spriteLoop \<Rightarrow> bool" where
  "readyState s \<longleftrightarrow> length (sLvls s) = 16
     \<and> (renderSprite s \<longrightarrow>
          spriteSlices s = demoMakeSlices 4 4 0 0
        \<and> (\<exists>lvl. sLvls s ! 0 = Some lvl \<and> length (Cts lvl) = 8 \<and> length (CurrTex lvl) = 8
               \<and> length (St lvl) = 8 \<and> length (Sv lvl) = 8 \<and> list_all (\<lambda>r. r \<noteq> None) (Sv lvl)))"

text \<open>A level whose four slices have eight entries and whose screen rectangles are all set.\<close>

definition readyLevel :: "level \<Rightarrow> bool" where
  "readyLevel lvl \<longleftrightarrow> length (Cts lvl) = 8 \<and> length (CurrTex lvl) = 8 \<and> length (St lvl) = 8
     \<and> length (Sv lvl) = 8 \<and> list_all (\<lambda>r. r \<noteq> None) (Sv lvl)"

section \<open>Proofs\<close>

section \<open>Termination of the grid traversal\<close>

lemma initRay_steps: "stepX (initRay F c x) \<in> {1, -1} \<and> stepY (initRay F c x) \<in> {1, -1} \<and> hit (initRay F c x) = 0"
  by (simp add: initRay_def Let_def split: prod.splits if_splits)

lemma ddaMove_consts [simp]:
  "stepX (ddaMove F r) = stepX r" "stepY (ddaMove F r) = stepY r" "hit (ddaMove F r) = hit r"
  by (simp_all add: ddaMove_def)

lemma ddaStep_cases:
  assumes "stepX r \<in> {1, -1}" "stepY r \<in> {1, -1}" "hit r = 0"
  shows "(\<exists>e. ddaStep F c g r = Inl e)
       \<or> (\<exists>r'. ddaStep F c g r = Inr r' \<and> hit r' \<noteq> 0)
       \<or> (\<exists>r'. ddaStep F c g r = Inr r' \<and> hit r' = 0 \<and> inBounds c r' \<and> stepX r' = stepX r \<and> stepY r' = stepY r
             \<and> (inBounds c r \<longrightarrow> remaining c r' < remaining c r))"
proof (cases "inBounds c (ddaMove F r)")
  case False
  then show ?thesis by (simp add: ddaStep_def ddaCheck_def)
next
  case True
  show ?thesis
  proof (cases "gridAt g (ddaMove F r)")
    case (Inl e)
    with True show ?thesis by (simp add: ddaStep_def ddaCheck_def bindE_def)
  next
    case (Inr v)
    have dec: "inBounds c r \<Longrightarrow> remaining c (ddaMove F r) < remaining c r"
      using assms True by (auto simp: remaining_def ddaMove_def inBounds_def)
    show ?thesis
    proof (cases "v > 0")
      case True
      with Inr \<open>inBounds c (ddaMove F r)\<close> show ?thesis by (simp add: ddaStep_def ddaCheck_def bindE_def)
    next
      case False
      with Inr \<open>inBounds c (ddaMove F r)\<close> assms dec show ?thesis
        by (simp add: ddaStep_def ddaCheck_def bindE_def)
    qed
  qed
qed

lemma ddaLoop_inBounds_terminates:
  "stepX r \<in> {1, -1} \<Longrightarrow> stepY r \<in> {1, -1} \<Longrightarrow> inBounds c r \<Longrightarrow> remaining c r = n
    \<Longrightarrow> \<exists>res. ddaLoop F c g r = Some res"
proof (induction n arbitrary: r rule: less_induct)
  case (less n)
  show ?case
  proof (cases "hit r = 0")
    case False
    then show ?thesis by (subst ddaLoop.simps) simp
  next
    case True
    from ddaStep_cases [OF less.prems(1,2) True, of F c g]
    consider e where "ddaStep F c g r = Inl e"
      | r' where "ddaStep F c g r = Inr r'" "hit r' \<noteq> 0"
      | r' where "ddaStep F c g r = Inr r'" "hit r' = 0" "inBounds c r'" "stepX r' = stepX r" "stepY r' = stepY r"
                 "remaining c r' < remaining c r"
      using less.prems(3) by blast
    then show ?thesis
    proof cases
      case 1
      with True show ?thesis by (subst ddaLoop.simps) simp
    next
      case 2
      have "ddaLoop F c g r' = Some (Inr r')" using 2(2) by (subst ddaLoop.simps) simp
      with True 2(1) show ?thesis by (subst ddaLoop.simps) simp
    next
      case 3
      have "\<exists>res. ddaLoop F c g r' = Some res"
        using less.IH [of "remaining c r'" r'] 3 less.prems by simp
      with True 3(1) show ?thesis by (subst ddaLoop.simps) simp
    qed
  qed
qed

lemma ddaLoop_terminates:
  assumes "stepX r \<in> {1, -1}" "stepY r \<in> {1, -1}"
  shows "\<exists>res. ddaLoop F c g r = Some res"
proof (cases "hit r = 0")
  case False
  then show ?thesis by (subst ddaLoop.simps) simp
next
  case True
  from ddaStep_cases [OF assms True, of F c g]
  consider e where "ddaStep F c g r = Inl e"
    | r' where "ddaStep F c g r = Inr r'" "hit r' \<noteq> 0"
    | r' where "ddaStep F c g r = Inr r'" "hit r' = 0" "inBounds c r'" "stepX r' = stepX r" "stepY r' = stepY r"
    by blast
  then show ?thesis
  proof cases
    case 1
    with True show ?thesis by (subst ddaLoop.simps) simp
  next
    case 2
    have "ddaLoop F c g r' = Some (Inr r')" using 2(2) by (subst ddaLoop.simps) simp
    with True 2(1) show ?thesis by (subst ddaLoop.simps) simp
  next
    case 3
    have "\<exists>res. ddaLoop F c g r' = Some res"
      using ddaLoop_inBounds_terminates [of r' c _ F g] 3 assms by simp
    with True 3(1) show ?thesis by (subst ddaLoop.simps) simp
  qed
qed

lemma sideRemap_table: "sideRemap 0 t = remapSpec t"
  by (simp add: sideRemap_def remapSpec_def remapTable_def Let_def)

lemma sideRemap_other: "sd \<noteq> 0 \<Longrightarrow> sideRemap sd t = t"
  by (simp add: sideRemap_def)

lemma ddaStep_post:
  assumes "ddaStep F c g r = Inr r'" "hit r = 0"
  shows "side r' \<in> {0, 1} \<and> hit r' \<in> {0, 1, 2}
       \<and> (hit r' = 2 \<longleftrightarrow> \<not> inBounds c r')
       \<and> (hit r' = 1 \<longrightarrow> (\<exists>v. gridAt g r' = Inr v \<and> 0 < v))
       \<and> (hit r' = 0 \<longrightarrow> (\<exists>v. gridAt g r' = Inr v \<and> v \<le> 0) \<and> r' = ddaMove F r)
       \<and> (\<exists>k. r' = (ddaMove F r)\<lparr> hit := k \<rparr>)"
proof -
  let ?m = "ddaMove F r"
  have s: "side ?m \<in> {0, 1}" and h: "hit ?m = 0" using assms(2) by (simp_all add: ddaMove_def)
  have ib: "\<And>k. inBounds c (?m\<lparr> hit := k \<rparr>) = inBounds c ?m" by (simp add: inBounds_def)
  have ga: "\<And>k. gridAt g (?m\<lparr> hit := k \<rparr>) = gridAt g ?m" by (simp add: gridAt_def)
  have same: "?m\<lparr> hit := 0 \<rparr> = ?m" using h by simp
  show ?thesis
  proof (cases "inBounds c ?m")
    case False
    with assms(1) have "r' = ?m\<lparr> hit := 2 \<rparr>" by (simp add: ddaStep_def ddaCheck_def)
    with False s ib show ?thesis by auto
  next
    case True
    with assms(1) obtain v where v: "gridAt g ?m = Inr v" and r': "r' = (if v > 0 then ?m\<lparr> hit := 1 \<rparr> else ?m)"
      by (auto simp: ddaStep_def ddaCheck_def bindE_def split: sum.splits)
    show ?thesis
    proof (cases "v > 0")
      case pos: True
      with r' have "r' = ?m\<lparr> hit := 1 \<rparr>" by simp
      with True s ib ga v pos show ?thesis by auto
    next
      case npos: False
      with r' have e: "r' = ?m" by simp
      have "\<exists>k. ?m = ?m\<lparr> hit := k \<rparr>" using same by metis
      with e True s h v npos show ?thesis by auto
    qed
  qed
qed

lemma ddaLoop_post_aux:
  assumes "ddaLoop F c g r = Some res"
  shows "(hit r \<noteq> 0 \<longrightarrow> res = Inr r) \<and> (hit r = 0 \<longrightarrow> (\<forall>r'. res = Inr r' \<longrightarrow> hitPost c g r'))"
proof (rule ddaLoop.raw_induct
    [where P = "\<lambda>F c g r res. (hit r \<noteq> 0 \<longrightarrow> res = Inr r) \<and> (hit r = 0 \<longrightarrow> (\<forall>r'. res = Inr r' \<longrightarrow> hitPost c g r'))",
     OF _ assms])
  fix loop :: "'a fops \<Rightarrow> 'a Camera \<Rightarrow> grid \<Rightarrow> 'a ray \<Rightarrow> (error + 'a ray) option"
    and F c g r res
  assume ih: "\<And>F c g r y. loop F c g r = Some y \<Longrightarrow>
      (hit r \<noteq> 0 \<longrightarrow> y = Inr r) \<and> (hit r = 0 \<longrightarrow> (\<forall>r'. y = Inr r' \<longrightarrow> hitPost c g r'))"
    and eq: "(if hit r = 0 then case ddaStep F c g r of Inl e \<Rightarrow> Some (Inl e) | Inr r' \<Rightarrow> loop F c g r'
             else Some (Inr r)) = Some res"
  show "(hit r \<noteq> 0 \<longrightarrow> res = Inr r) \<and> (hit r = 0 \<longrightarrow> (\<forall>r'. res = Inr r' \<longrightarrow> hitPost c g r'))"
  proof (cases "hit r = 0")
    case False
    with eq show ?thesis by simp
  next
    case True
    have "hitPost c g r'" if res: "res = Inr r'" for r'
    proof -
      from eq True res obtain r1 where st: "ddaStep F c g r = Inr r1" and l: "loop F c g r1 = Some res"
        by (cases "ddaStep F c g r") auto
      note p = ddaStep_post [OF st True]
      show ?thesis
      proof (cases "hit r1 = 0")
        case True
        with ih [OF l] res show ?thesis by simp
      next
        case False
        with ih [OF l] res have "r' = r1" by simp
        with p False show ?thesis by (auto simp: hitPost_def)
      qed
    qed
    with True show ?thesis by simp
  qed
qed

lemma castRay_post: "castRay F c x g = Some (Inr r) \<Longrightarrow> hitPost c g r"
  using ddaLoop_post_aux [of F c g "initRay F c x" "Inr r"] initRay_steps [of F c x]
  by (simp add: castRay_def)

lemma castRay_cases:
  obtains e where "castRay F c x g = Some (Inl e)" | r where "castRay F c x g = Some (Inr r)"
proof -
  from ddaLoop_terminates [of "initRay F c x" F c g] initRay_steps [of F c x]
  obtain res where "castRay F c x g = Some res" by (auto simp: castRay_def)
  then show ?thesis using that by (cases res) auto
qed

lemma castLevel_texNum:
  assumes "castLevel F c x g levelNum = Some (Inr (c', r, texNum))"
  shows "castRay F c x g = Some (Inr r) \<and> (\<exists>t0. rawTexNum c g r = Inr t0 \<and> texNum = sideRemap (side r) t0)
       \<and> setCurrTex c levelNum x texNum = Inr c'"
  using assms
  by (cases rule: castRay_cases [of F c x g])
     (auto simp: castLevel_def bindE_def Let_def split: sum.splits)

text \<open>
  C8. The texture number that \<^verbatim>\<open>castLevel\<close> resolves for a column is the number under
  the hit cell (\<open>-1\<close> outside the map), changed on side 0 by exactly the table
  \<open>3 \<mapsto> 4, 4 \<mapsto> 3, 1 \<mapsto> 4, 2 \<mapsto> 3\<close>, every other number unchanged, and unchanged on side 1.
  The side of a finished traversal is 0 or 1.
\<close>

theorem castLevel_side_remap:
  assumes "castLevel F c x g levelNum = Some (Inr (c', r, texNum))"
  shows "\<exists>t0. rawTexNum c g r = Inr t0 \<and> side r \<in> {0, 1}
           \<and> (side r = 0 \<longrightarrow> texNum = remapSpec t0) \<and> (side r = 1 \<longrightarrow> texNum = t0)
           \<and> castRay F c x g = Some (Inr r) \<and> setCurrTex c levelNum x texNum = Inr c'"
proof -
  from castLevel_texNum [OF assms] obtain t0 where
    r: "castRay F c x g = Some (Inr r)" and t0: "rawTexNum c g r = Inr t0" and t: "texNum = sideRemap (side r) t0"
    by blast
  from castRay_post [OF r] have "side r \<in> {0, 1}" by (simp add: hitPost_def)
  moreover from castLevel_texNum [OF assms] t have "setCurrTex c levelNum x texNum = Inr c'" by blast
  ultimately show ?thesis using t0 t r by (auto simp: sideRemap_table sideRemap_other)
qed



lemma wfGrid_gridAt:
  assumes "wfGrid c g" "inBounds c r"
  shows "\<exists>v. gridAt g r = Inr v"
proof -
  from assms have x: "0 \<le> mapX r" "mapX r < int (length g)" "nat (mapX r) < nat (mapWidth c)"
    and y: "0 \<le> mapY r" "mapY r < mapHeight c"
    by (auto simp: wfGrid_def inBounds_def)
  from assms(1) have "\<forall>n. n < length (take (nat (mapWidth c)) g) \<longrightarrow> mapHeight c \<le> int (length (take (nat (mapWidth c)) g ! n))"
    by (simp add: wfGrid_def list_all_length)
  moreover from x have "nat (mapX r) < length (take (nat (mapWidth c)) g)" by simp
  ultimately have "mapHeight c \<le> int (length (take (nat (mapWidth c)) g ! nat (mapX r)))" by blast
  with x have "mapHeight c \<le> int (length (g ! nat (mapX r)))" by simp
  with x y show ?thesis by (simp add: gridAt_def index_def bindE_def)
qed

lemma budget_decreases:
  assumes "stepX r \<in> {1, -1}" "stepY r \<in> {1, -1}" "inBounds c (ddaMove F r)"
  shows "budget c (ddaMove F r) < budget c r"
  using assms by (auto simp: budget_def remaining_def ddaMove_def inBounds_def)

lemma ddaLoop_stop:
  assumes "hit r = 0" "ddaStep F c g r = Inr r'" "hit r' \<noteq> 0"
  shows "ddaLoop F c g r = Some (Inr r')"
proof -
  have "ddaLoop F c g r' = Some (Inr r')" using assms(3) by (subst ddaLoop.simps) simp
  with assms(1,2) show ?thesis by (subst ddaLoop.simps) simp
qed

lemma ddaLoop_continue:
  assumes "hit r = 0" "ddaStep F c g r = Inr r'"
  shows "ddaLoop F c g r = ddaLoop F c g r'"
  using assms by (subst ddaLoop.simps) simp

lemma budget_pos:
  assumes "stepX r \<in> {1, -1}" "stepY r \<in> {1, -1}"
  shows "1 \<le> budget c r" "budget c r \<le> nat (mapWidth c + mapHeight c) + 1"
  using assms by (auto simp: budget_def remaining_def inBounds_def)

lemma ddaLoop_trace:
  assumes "stepX r \<in> {1, -1}" "stepY r \<in> {1, -1}" "hit r = 0" "budget c r = m"
  shows "\<exists>n. Suc n \<le> m \<and> stopsAfter F c g r n"
  using assms
proof (induction m arbitrary: r rule: less_induct)
  case (less m)
  let ?r1 = "ddaMove F r"
  have h1: "hit ?r1 = 0" and sx: "stepX ?r1 \<in> {1, -1}" and sy: "stepY ?r1 \<in> {1, -1}"
    using less.prems by simp_all
  have m1: "Suc 0 \<le> m" using budget_pos(1) [OF less.prems(1,2), where c = c] less.prems(4) by simp
  show ?case
  proof (cases "inBounds c ?r1")
    case False
    then have "ddaStep F c g r = Inr (?r1\<lparr> hit := 2 \<rparr>)" by (simp add: ddaStep_def ddaCheck_def)
    from ddaLoop_stop [OF less.prems(3) this] False
    have "stopsAfter F c g r 0" by (simp add: stopsAfter_def)
    with m1 show ?thesis by blast
  next
    case True
    show ?thesis
    proof (cases "gridAt g ?r1")
      case (Inl err)
      with True have "ddaStep F c g r = Inl err" by (simp add: ddaStep_def ddaCheck_def bindE_def)
      with less.prems(3) have "ddaLoop F c g r = Some (Inl err)" by (subst ddaLoop.simps) simp
      with True Inl have "stopsAfter F c g r 0" by (simp add: stopsAfter_def)
      with m1 show ?thesis by blast
    next
      case (Inr v)
      note v = Inr
      show ?thesis
      proof (cases "0 < v")
        case pos: True
        with True v have "ddaStep F c g r = Inr (?r1\<lparr> hit := 1 \<rparr>)"
          by (simp add: ddaStep_def ddaCheck_def bindE_def)
        from ddaLoop_stop [OF less.prems(3) this] True v pos
        have "stopsAfter F c g r 0" by (simp add: stopsAfter_def)
        with m1 show ?thesis by blast
      next
        case npos: False
        with True v have st: "ddaStep F c g r = Inr ?r1"
          by (simp add: ddaStep_def ddaCheck_def bindE_def)
        have eq: "ddaLoop F c g r = ddaLoop F c g ?r1" by (rule ddaLoop_continue [OF less.prems(3) st])
        have lt: "budget c ?r1 < m"
          using budget_decreases [OF less.prems(1,2) True] less.prems(4) by simp
        from less.IH [OF lt sx sy h1 refl]
        obtain n where nb: "Suc n \<le> budget c ?r1" and n: "stopsAfter F c g ?r1 n" by blast
        have shift: "(ddaMove F ^^ k) ?r1 = (ddaMove F ^^ Suc k) r" for k
          by (simp add: funpow_swap1)
        have "stopsAfter F c g r (Suc n)"
          unfolding stopsAfter_def
        proof (intro conjI allI impI)
          fix k assume k: "1 \<le> k \<and> k \<le> Suc n"
          show "inBounds c ((ddaMove F ^^ k) r)"
          proof (cases "k = 1")
            case True
            with \<open>inBounds c ?r1\<close> show ?thesis by simp
          next
            case False
            with k obtain j where j: "k = Suc j" "1 \<le> j \<and> j \<le> n" by (cases k) auto
            with n show ?thesis unfolding stopsAfter_def shift by blast
          qed
          show "\<exists>v. gridAt g ((ddaMove F ^^ k) r) = Inr v \<and> v \<le> 0"
          proof (cases "k = 1")
            case True
            with v npos show ?thesis by simp
          next
            case False
            with k obtain j where j: "k = Suc j" "1 \<le> j \<and> j \<le> n" by (cases k) auto
            with n show ?thesis unfolding stopsAfter_def shift by blast
          qed
        next
          from n show "let e = (ddaMove F ^^ Suc (Suc n)) r in
            (inBounds c e \<and> (\<exists>v. gridAt g e = Inr v \<and> 0 < v) \<and> ddaLoop F c g r = Some (Inr (e\<lparr> hit := 1 \<rparr>)))
            \<or> (\<not> inBounds c e \<and> ddaLoop F c g r = Some (Inr (e\<lparr> hit := 2 \<rparr>)))
            \<or> (inBounds c e \<and> (\<exists>err. gridAt g e = Inl err \<and> ddaLoop F c g r = Some (Inl err)))"
            unfolding stopsAfter_def shift eq by blast
        qed
        moreover from nb lt have "Suc (Suc n) \<le> m" by simp
        ultimately show ?thesis by blast
      qed
    qed
  qed
qed

lemma castRay_trace:
  "\<exists>n. n \<le> nat (mapWidth c + mapHeight c) \<and> stopsAfter F c g (initRay F c x) n"
proof -
  note s = initRay_steps [of F c x]
  from ddaLoop_trace [OF _ _ _ refl, where r = "initRay F c x" and F = F and c = c and g = g] s
  obtain n where "Suc n \<le> budget c (initRay F c x)" "stopsAfter F c g (initRay F c x) n" by blast
  moreover have "budget c (initRay F c x) \<le> nat (mapWidth c + mapHeight c) + 1"
    by (rule budget_pos(2)) (use s in auto)
  ultimately show ?thesis by (intro exI [of _ n]) simp
qed

text \<open>
  C3, as amended. On a grid that covers the map bounds the traversal of every camera pose
  and screen column runs as follows. Each iteration moves one cell, along x when
  \<open>sideDistX < sideDistY\<close> and along y otherwise (so also on a tie). There is a number \<open>n\<close>
  such that the cells entered by the moves 1 to \<open>n\<close> are all inside the map on tiles
  \<open>\<le> 0\<close>, where the loop goes on, and the cell entered by move \<open>n + 1\<close> is either inside
  the map on a tile \<open>> 0\<close>, where the loop stops with \<open>hit = 1\<close>, or outside the map, where
  it stops with \<open>hit = 2\<close>. The loop never stops on an in-bounds tile \<open>\<le> 0\<close>; a negative
  tile is passed like a zero tile.
\<close>

theorem castRay_stop_condition:
  assumes "wfGrid c g"
  shows "\<exists>n. (\<forall>k. 1 \<le> k \<and> k \<le> n \<longrightarrow>
                inBounds c ((ddaMove F ^^ k) (initRay F c x))
              \<and> (\<exists>v. gridAt g ((ddaMove F ^^ k) (initRay F c x)) = Inr v \<and> v \<le> 0))
            \<and> ((inBounds c ((ddaMove F ^^ Suc n) (initRay F c x))
                  \<and> (\<exists>v. gridAt g ((ddaMove F ^^ Suc n) (initRay F c x)) = Inr v \<and> 0 < v)
                  \<and> castRay F c x g = Some (Inr (((ddaMove F ^^ Suc n) (initRay F c x))\<lparr> hit := 1 \<rparr>)))
               \<or> (\<not> inBounds c ((ddaMove F ^^ Suc n) (initRay F c x))
                  \<and> castRay F c x g = Some (Inr (((ddaMove F ^^ Suc n) (initRay F c x))\<lparr> hit := 2 \<rparr>))))
            \<and> (\<forall>r. ddaMove F r =
                  (if flt F (sideDistX r) (sideDistY r)
                   then r\<lparr> sideDistX := fadd F (sideDistX r) (deltaDistX r), mapX := mapX r + stepX r, side := 0 \<rparr>
                   else r\<lparr> sideDistY := fadd F (sideDistY r) (deltaDistY r), mapY := mapY r + stepY r, side := 1 \<rparr>))"
proof -
  from castRay_trace [where c = c and F = F and g = g and x = x] obtain n
    where n: "stopsAfter F c g (initRay F c x) n" by blast
  let ?e = "(ddaMove F ^^ Suc n) (initRay F c x)"
  from n have path: "\<forall>k. 1 \<le> k \<and> k \<le> n \<longrightarrow>
                inBounds c ((ddaMove F ^^ k) (initRay F c x))
              \<and> (\<exists>v. gridAt g ((ddaMove F ^^ k) (initRay F c x)) = Inr v \<and> v \<le> 0)"
    unfolding stopsAfter_def by (rule conjunct1)
  from n have fin: "(inBounds c ?e \<and> (\<exists>v. gridAt g ?e = Inr v \<and> 0 < v) \<and> castRay F c x g = Some (Inr (?e\<lparr> hit := 1 \<rparr>)))
      \<or> (\<not> inBounds c ?e \<and> castRay F c x g = Some (Inr (?e\<lparr> hit := 2 \<rparr>)))
      \<or> (inBounds c ?e \<and> (\<exists>err. gridAt g ?e = Inl err \<and> castRay F c x g = Some (Inl err)))"
    unfolding stopsAfter_def Let_def castRay_def by (rule conjunct2)
  have "\<not> (inBounds c ?e \<and> (\<exists>err. gridAt g ?e = Inl err \<and> castRay F c x g = Some (Inl err)))"
    using wfGrid_gridAt [OF assms, where r = ?e] by auto
  with fin have fin': "(inBounds c ?e \<and> (\<exists>v. gridAt g ?e = Inr v \<and> 0 < v) \<and> castRay F c x g = Some (Inr (?e\<lparr> hit := 1 \<rparr>)))
      \<or> (\<not> inBounds c ?e \<and> castRay F c x g = Some (Inr (?e\<lparr> hit := 2 \<rparr>)))"
    by blast
  have mv: "\<forall>r. ddaMove F r =
                  (if flt F (sideDistX r) (sideDistY r)
                   then r\<lparr> sideDistX := fadd F (sideDistX r) (deltaDistX r), mapX := mapX r + stepX r, side := 0 \<rparr>
                   else r\<lparr> sideDistY := fadd F (sideDistY r) (deltaDistY r), mapY := mapY r + stepY r, side := 1 \<rparr>)"
    by (simp add: ddaMove_def)
  show ?thesis
    by (rule exI [of _ n]) (intro conjI path fin' mv)
qed

text \<open>
  C10. The traversal loop of \<^verbatim>\<open>castLevel\<close> terminates for every camera (position,
  direction and plane vectors, map bounds), every grid, every screen column and every
  interpretation of the float64 operations, the infinite and NaN delta distances of
  degenerate rays included. The steps of the ray are plus or minus one and stay fixed, and
  each iteration adds its step to \<open>mapX\<close> or to \<open>mapY\<close> and leaves the other unchanged.
  After at most \<open>mapWidth + mapHeight + 1\<close> moves the loop has stopped: on a cell inside
  the map whose tile is \<open>> 0\<close>, with \<open>hit = 1\<close>, or on a cell outside the map, with
  \<open>hit = 2\<close>. The only other end is the panic of \<^verbatim>\<open>grid[mapX][mapY]\<close>, and it needs a
  grid that does not cover the map bounds. \<^verbatim>\<open>castLevel\<close> then reaches line 350.
\<close>

theorem castLevel_terminates:
  "\<exists>n res. n \<le> nat (mapWidth c + mapHeight c) \<and> castRay F c x g = Some res
      \<and> ((res = Inr (((ddaMove F ^^ Suc n) (initRay F c x))\<lparr> hit := 1 \<rparr>)
            \<and> inBounds c ((ddaMove F ^^ Suc n) (initRay F c x))
            \<and> (\<exists>v. gridAt g ((ddaMove F ^^ Suc n) (initRay F c x)) = Inr v \<and> 0 < v))
         \<or> (res = Inr (((ddaMove F ^^ Suc n) (initRay F c x))\<lparr> hit := 2 \<rparr>)
            \<and> \<not> inBounds c ((ddaMove F ^^ Suc n) (initRay F c x)))
         \<or> (\<exists>err. res = Inl err \<and> gridAt g ((ddaMove F ^^ Suc n) (initRay F c x)) = Inl err
            \<and> inBounds c ((ddaMove F ^^ Suc n) (initRay F c x)) \<and> \<not> wfGrid c g))
      \<and> (\<exists>out. castLevel F c x g levelNum = Some out)
      \<and> stepX (initRay F c x) \<in> {1, -1} \<and> stepY (initRay F c x) \<in> {1, -1}
      \<and> (\<forall>r. stepX (ddaMove F r) = stepX r \<and> stepY (ddaMove F r) = stepY r
             \<and> ((mapX (ddaMove F r) = mapX r + stepX r \<and> mapY (ddaMove F r) = mapY r)
                \<or> (mapX (ddaMove F r) = mapX r \<and> mapY (ddaMove F r) = mapY r + stepY r)))"
proof -
  from castRay_trace [where c = c and F = F and g = g and x = x] obtain n where
    nb: "n \<le> nat (mapWidth c + mapHeight c)" and n: "stopsAfter F c g (initRay F c x) n" by blast
  let ?e = "(ddaMove F ^^ Suc n) (initRay F c x)"
  have nowf: "\<not> wfGrid c g" if "inBounds c ?e" "gridAt g ?e = Inl err" for err
    using wfGrid_gridAt [where c = c and g = g and r = ?e] that by auto
  from n have fin: "(inBounds c ?e \<and> (\<exists>v. gridAt g ?e = Inr v \<and> 0 < v) \<and> castRay F c x g = Some (Inr (?e\<lparr> hit := 1 \<rparr>)))
      \<or> (\<not> inBounds c ?e \<and> castRay F c x g = Some (Inr (?e\<lparr> hit := 2 \<rparr>)))
      \<or> (inBounds c ?e \<and> (\<exists>err. gridAt g ?e = Inl err \<and> castRay F c x g = Some (Inl err)))"
    unfolding stopsAfter_def Let_def castRay_def by (rule conjunct2)
  then obtain res where res: "castRay F c x g = Some res"
    and cases: "(res = Inr (?e\<lparr> hit := 1 \<rparr>) \<and> inBounds c ?e \<and> (\<exists>v. gridAt g ?e = Inr v \<and> 0 < v))
         \<or> (res = Inr (?e\<lparr> hit := 2 \<rparr>) \<and> \<not> inBounds c ?e)
         \<or> (\<exists>err. res = Inl err \<and> gridAt g ?e = Inl err \<and> inBounds c ?e \<and> \<not> wfGrid c g)"
  proof (elim disjE conjE exE)
    fix v assume "inBounds c ?e" "gridAt g ?e = Inr v" "0 < v" "castRay F c x g = Some (Inr (?e\<lparr> hit := 1 \<rparr>))"
    then show ?thesis by (intro that [of "Inr (?e\<lparr> hit := 1 \<rparr>)"]) auto
  next
    assume "\<not> inBounds c ?e" "castRay F c x g = Some (Inr (?e\<lparr> hit := 2 \<rparr>))"
    then show ?thesis by (intro that [of "Inr (?e\<lparr> hit := 2 \<rparr>)"]) auto
  next
    fix err assume "inBounds c ?e" "gridAt g ?e = Inl err" "castRay F c x g = Some (Inl err)"
    with nowf show ?thesis by (intro that [of "Inl err"]) auto
  qed
  have out: "\<exists>out. castLevel F c x g levelNum = Some out"
    using res by (cases res) (simp_all add: castLevel_def)
  have mv: "\<forall>r. stepX (ddaMove F r) = stepX r \<and> stepY (ddaMove F r) = stepY r
             \<and> ((mapX (ddaMove F r) = mapX r + stepX r \<and> mapY (ddaMove F r) = mapY r)
                \<or> (mapX (ddaMove F r) = mapX r \<and> mapY (ddaMove F r) = mapY r + stepY r))"
    by (simp add: ddaMove_def)
  note st = initRay_steps [of F c x]
  show ?thesis
    apply (rule exI [of _ n], rule exI [of _ res])
    apply (intro conjI nb res cases out mv)
    using st by simp_all
qed

lemma halfFov_bounds: "1 / 2 < halfFov" "halfFov < 1"
proof -
  have a: "halfFov = tan (7 * pi / 36)" by (simp add: halfFov_def Radians_def)
  have lo: "tan (pi / 6) < tan (7 * pi / 36)"
    by (rule tan_monotone) (use pi_gt_zero in auto)
  have "sqrt 3 < 2" by (rule real_less_lsqrt) simp_all
  then have "(1::real) / 2 < 1 / sqrt 3" by (simp add: field_simps)
  also have "\<dots> = tan (pi / 6)" by (simp add: tan_30)
  also note lo
  finally show "1 / 2 < halfFov" by (simp only: a)
  have "tan (7 * pi / 36) < tan (pi / 4)"
    by (rule tan_monotone) (use pi_gt_zero in auto)
  also have "\<dots> = 1" by (rule tan_45)
  finally show "halfFov < 1" by (simp only: a)
qed

lemma cos_halfFov: "cos (Radians 70 / 2) \<noteq> 0"
proof -
  have "0 < cos (Radians 70 / 2)"
    by (rule cos_gt_zero_pi) (use pi_gt_zero in \<open>auto simp: Radians_def\<close>)
  then show ?thesis by simp
qed

lemma NewCamera_init_pose:
  assumes "NewCamera_init sv width height ts m th = Inr c"
  shows "pos c = \<lparr> X = 1, Y = 1 \<rparr>" "dir c = \<lparr> X = 1, Y = 0 \<rparr>" "plane c = \<lparr> X = 0, Y = - halfFov \<rparr>"
    "w c = width" "fovDepth c = 1" "tex c = th"
    "levels c = createLevels sv width height (int (length m))"
    "\<exists>g. index m 0 = Inr g \<and> mapWidth c = int (length g) \<and> mapHeight c = int (length g)"
  using assms cos_halfFov
  by (auto simp: NewCamera_init_def Let_def bindE_def GetVecForAngle_def GetVecForFov_def
      GetAngleFromVec_def atan2_def vecLength_def vSub_def GetVecForAngleLength_def halfFov_def tan_def
      split: sum.splits if_splits)

lemma halfFov_pos: "0 < halfFov" using halfFov_bounds(1) by simp

lemma pose_ray0:
  assumes "pos c = \<lparr> X = 1, Y = 1 \<rparr>" "dir c = \<lparr> X = 1, Y = 0 \<rparr>" "plane c = \<lparr> X = 0, Y = - halfFov \<rparr>" "w c = 1"
  shows "initRay RealOps c 0 = ray0"
  using halfFov_pos
  by (simp add: initRay_def RealOps_def assms ray0_def trunc_def Let_def)

lemma move_ray0: "ddaMove RealOps ray0 = ray1"
  using halfFov_bounds halfFov_pos
  by (simp add: ddaMove_def RealOps_def ray0_def ray1_def field_simps)

lemma move_ray1: "ddaMove RealOps ray1 = ray2"
  using halfFov_bounds halfFov_pos
  by (simp add: ddaMove_def RealOps_def ray0_def ray1_def ray2_def field_simps)

lemma move_ray2: "ddaMove RealOps ray2 = ray3"
  using halfFov_bounds halfFov_pos
  by (simp add: ddaMove_def RealOps_def ray0_def ray1_def ray2_def ray3_def field_simps)

lemma ray_cells:
  "mapX ray1 = 2" "mapY ray1 = 1" "mapX ray2 = 2" "mapY ray2 = 2" "mapX ray3 = 3" "mapY ray3 = 2"
  "hit ray0 = 0" "hit ray1 = 0" "hit ray2 = 0" "hit ray3 = 0"
  "side ray1 = 0" "side ray2 = 1" "side ray3 = 0"
  by (simp_all add: ray0_def ray1_def ray2_def ray3_def)

lemma NewCamera_init_ok:
  "0 \<le> width \<Longrightarrow> \<exists>c. NewCamera_init sv width height ts (g # gs) th = Inr c"
  by (simp add: NewCamera_init_def Let_def bindE_def index_def)

lemma NewCamera_init_map:
  assumes "NewCamera_init sv width height ts (g # gs) th = Inr c"
  shows "mapWidth c = int (length g)" "mapHeight c = int (length g)"
  using NewCamera_init_pose(8) [OF assms] by (simp_all add: index_def)

lemma demoCamera_eq: "NewCamera_init demoSliceView 1 1 64 [g] demoTex = Inr (demoCamera g)"
  using NewCamera_init_ok [of 1 demoSliceView 1 64 g "[]" demoTex]
  by (auto simp: demoCamera_def)

text \<open>The start pose on a map of three columns: the ray of column 0 and its first squares.\<close>

lemma start_ray:
  assumes "NewCamera_init sv 1 height ts (g # gs) th = Inr c" "length g = 3"
  shows "initRay RealOps c 0 = ray0"
    "inBounds c ray1" "inBounds c ray2" "\<not> inBounds c ray3"
  using NewCamera_init_pose(1-4) [OF assms(1)] NewCamera_init_map [OF assms(1)] assms(2)
  by (simp_all add: pose_ray0 inBounds_def ray_cells)

lemma gridAt_hit [simp]: "gridAt g (r\<lparr> hit := k \<rparr>) = gridAt g r"
  by (simp add: gridAt_def)

lemma inBounds_hit [simp]: "inBounds c (r\<lparr> hit := k \<rparr>) = inBounds c r"
  by (simp add: inBounds_def)

lemma gridAt_cells:
  "gridAt wallGrid ray1 = Inr 0" "gridAt wallGrid ray2 = Inr 1"
  "gridAt emptyGrid ray1 = Inr 0" "gridAt emptyGrid ray2 = Inr 0"
  "gridAt negGrid ray1 = Inr (-1)" "gridAt negGrid ray2 = Inr 1"
  "gridAt texGrid ray1 = Inr 4"
  by (simp_all add: gridAt_def index_def bindE_def ray_cells wallGrid_def emptyGrid_def negGrid_def texGrid_def)

lemma castRay_wallGrid:
  assumes "NewCamera_init sv 1 height ts (wallGrid # gs) th = Inr c"
  shows "castRay RealOps c 0 wallGrid = Some (Inr (ray2\<lparr> hit := 1 \<rparr>))"
proof -
  note s = start_ray [OF assms, simplified wallGrid_def, simplified, folded wallGrid_def]
  have 1: "ddaStep RealOps c wallGrid ray0 = Inr ray1"
    by (simp add: ddaStep_def ddaCheck_def move_ray0 s gridAt_cells bindE_def)
  have 2: "ddaStep RealOps c wallGrid ray1 = Inr (ray2\<lparr> hit := 1 \<rparr>)"
    by (simp add: ddaStep_def ddaCheck_def move_ray1 s gridAt_cells bindE_def)
  have "ddaLoop RealOps c wallGrid ray1 = Some (Inr (ray2\<lparr> hit := 1 \<rparr>))"
    by (rule ddaLoop_stop [OF _ 2]) (simp_all add: ray_cells)
  then show ?thesis
    by (simp add: castRay_def s ddaLoop_continue [OF _ 1] ray_cells)
qed

lemma castRay_emptyGrid:
  assumes "NewCamera_init sv 1 height ts (emptyGrid # gs) th = Inr c"
  shows "castRay RealOps c 0 emptyGrid = Some (Inr (ray3\<lparr> hit := 2 \<rparr>))"
proof -
  note s = start_ray [OF assms, simplified emptyGrid_def, simplified, folded emptyGrid_def]
  have 1: "ddaStep RealOps c emptyGrid ray0 = Inr ray1"
    by (simp add: ddaStep_def ddaCheck_def move_ray0 s gridAt_cells bindE_def)
  have 2: "ddaStep RealOps c emptyGrid ray1 = Inr ray2"
    by (simp add: ddaStep_def ddaCheck_def move_ray1 s gridAt_cells bindE_def)
  have 3: "ddaStep RealOps c emptyGrid ray2 = Inr (ray3\<lparr> hit := 2 \<rparr>)"
    by (simp add: ddaStep_def ddaCheck_def move_ray2 s)
  have "ddaLoop RealOps c emptyGrid ray2 = Some (Inr (ray3\<lparr> hit := 2 \<rparr>))"
    by (rule ddaLoop_stop [OF _ 3]) (simp_all add: ray_cells)
  then show ?thesis
    by (simp add: castRay_def s ddaLoop_continue [OF _ 1] ddaLoop_continue [OF _ 2] ray_cells)
qed

lemma castRay_negGrid:
  assumes "NewCamera_init sv 1 height ts (negGrid # gs) th = Inr c"
  shows "ddaStep RealOps c negGrid (initRay RealOps c 0) = Inr ray1"
    "castRay RealOps c 0 negGrid = Some (Inr (ray2\<lparr> hit := 1 \<rparr>))"
    "inBounds c ray1"
proof -
  note s = start_ray [OF assms, simplified negGrid_def, simplified, folded negGrid_def]
  have 1: "ddaStep RealOps c negGrid ray0 = Inr ray1"
    by (simp add: ddaStep_def ddaCheck_def move_ray0 s gridAt_cells bindE_def)
  have 2: "ddaStep RealOps c negGrid ray1 = Inr (ray2\<lparr> hit := 1 \<rparr>)"
    by (simp add: ddaStep_def ddaCheck_def move_ray1 s gridAt_cells bindE_def)
  have "ddaLoop RealOps c negGrid ray1 = Some (Inr (ray2\<lparr> hit := 1 \<rparr>))"
    by (rule ddaLoop_stop [OF _ 2]) (simp_all add: ray_cells)
  then show "castRay RealOps c 0 negGrid = Some (Inr (ray2\<lparr> hit := 1 \<rparr>))"
    by (simp add: castRay_def s ddaLoop_continue [OF _ 1] ray_cells)
  from 1 show "ddaStep RealOps c negGrid (initRay RealOps c 0) = Inr ray1" by (simp add: s)
  from s show "inBounds c ray1" by simp
qed

lemma castRay_texGrid:
  assumes "NewCamera_init sv 1 height ts (texGrid # gs) th = Inr c"
  shows "castRay RealOps c 0 texGrid = Some (Inr (ray1\<lparr> hit := 1 \<rparr>))"
proof -
  note s = start_ray [OF assms, simplified texGrid_def, simplified, folded texGrid_def]
  have 1: "ddaStep RealOps c texGrid ray0 = Inr (ray1\<lparr> hit := 1 \<rparr>)"
    by (simp add: ddaStep_def ddaCheck_def move_ray0 s gridAt_cells bindE_def)
  have "ddaLoop RealOps c texGrid ray0 = Some (Inr (ray1\<lparr> hit := 1 \<rparr>))"
    by (rule ddaLoop_stop [OF _ 1]) (simp_all add: ray_cells)
  then show ?thesis by (simp add: castRay_def s)
qed

lemma NewCamera_init_levels:
  assumes "NewCamera_init sv 1 height ts [g] th = Inr c"
  shows "levels c = [\<lparr> Sv = sv 1 height, Cts = [None], St = [None], CurrTex = [None] \<rparr>]" "tex c = th"
  using NewCamera_init_pose(6,7) [OF assms] by (simp_all add: createLevels_def)

lemma setCurrTex_first:
  assumes "levels c = [lv]" "CurrTex lv = [None]" "0 \<le> t" "t < int (length (Textures (tex c)))"
  shows "\<exists>c'. setCurrTex c 0 0 t = Inr c' \<and> CurrTex (levels c' ! 0) ! 0 = Some (Textures (tex c) ! nat t)"
  using assms by (simp add: setCurrTex_def bindE_def index_def store_def)

text \<open>
  C1. End-to-end single ray. The camera that \<^verbatim>\<open>NewCamera\<close> builds for viewport width 1 on
  the one-level 3x3 map whose only non-zero cell is \<open>grid[2][2] = 1\<close> stands at \<open>(1,1)\<close>
  with heading angle 0. Casting its single screen column \<open>x = 0\<close> ends with a wall hit
  (\<open>hit = 1\<close>) in the cell \<open>mapX = 2\<close>, \<open>mapY = 2\<close>, the wall cell, with the side flag 1,
  and the texture number 0: \<^verbatim>\<open>CurrTex[0]\<close> of level 0 holds texture 0 of the handler.
  The handler must have a texture 0 for the store to succeed. The float64 arithmetic is
  read as exact real arithmetic here; the ray \<open>(1, tan 35\<degree>)\<close> divides by no zero.
\<close>

theorem end_to_end_single_ray:
  assumes "Textures th \<noteq> []"
  shows "\<exists>c c' r. NewCamera_init sv 1 height ts [wallGrid] th = Inr c
      \<and> pos c = \<lparr> X = 1, Y = 1 \<rparr> \<and> dir c = GetVecForAngle c 0 \<and> w c = 1 \<and> mapObj c = [wallGrid]
      \<and> castLevel RealOps c 0 wallGrid 0 = Some (Inr (c', r, 0))
      \<and> hit r = 1 \<and> mapX r = 2 \<and> mapY r = 2 \<and> side r = 1 \<and> gridAt wallGrid r = Inr 1
      \<and> CurrTex (levels c' ! 0) ! 0 = Some (Textures th ! 0)"
proof -
  from NewCamera_init_ok [of 1 sv height ts wallGrid "[]" th]
  obtain c where c: "NewCamera_init sv 1 height ts [wallGrid] th = Inr c" by auto
  note p = NewCamera_init_pose [OF c]
  note l = NewCamera_init_levels [OF c]
  have m: "mapObj c = [wallGrid]"
    using c by (auto simp: NewCamera_init_def Let_def bindE_def split: sum.splits)
  have d: "dir c = GetVecForAngle c 0" using p(2,5) by (simp add: GetVecForAngle_def)
  let ?r = "ray2\<lparr> hit := 1 \<rparr>"
  have r: "castRay RealOps c 0 wallGrid = Some (Inr ?r)" by (rule castRay_wallGrid [OF c])
  have ib: "inBounds c ?r" using start_ray(3) [OF c] by (simp add: wallGrid_def)
  have raw: "rawTexNum c wallGrid ?r = Inr 0"
    using ib by (simp add: rawTexNum_def gridAt_cells bindE_def)
  have rm: "sideRemap (side ray2) 0 = 0" by (simp add: sideRemap_def ray_cells)
  from setCurrTex_first [OF l(1), of 0] assms l(2)
  obtain c' where c': "setCurrTex c 0 0 0 = Inr c'" "CurrTex (levels c' ! 0) ! 0 = Some (Textures th ! 0)"
    by auto
  have "castLevel RealOps c 0 wallGrid 0 = Some (Inr (c', ?r, 0))"
    by (simp add: castLevel_def r raw rm c' bindE_def Let_def)
  with c p(1,4) d m c'(2) show ?thesis
    by (intro exI [of _ c] exI [of _ c'] exI [of _ ?r]) (simp add: ray_cells gridAt_cells)
qed

theorem end_to_end_single_ray_witness:
  "Textures demoTex \<noteq> []
   \<and> (\<exists>c c' r. NewCamera_init demoSliceView 1 1 64 [wallGrid] demoTex = Inr c
      \<and> castLevel RealOps c 0 wallGrid 0 = Some (Inr (c', r, 0))
      \<and> hit r = 1 \<and> mapX r = 2 \<and> mapY r = 2 \<and> side r = 1
      \<and> CurrTex (levels c' ! 0) ! 0 = Some (Image 0))"
proof -
  have t: "Textures demoTex \<noteq> []" by (simp add: demoTex_def)
  from end_to_end_single_ray [OF t, of demoSliceView 1 64] t show ?thesis
    by (auto simp: demoTex_def)
qed

lemma wfGrid_demo:
  assumes "length g = 3" "list_all (\<lambda>col. 3 \<le> length col) g"
  shows "wfGrid (demoCamera g) g"
  using NewCamera_init_map [OF demoCamera_eq [of g]] assms
  by (simp add: wfGrid_def list_all_length)

theorem castRay_stop_condition_witness:
  "wfGrid (demoCamera negGrid) negGrid
   \<and> castRay RealOps (demoCamera negGrid) 0 negGrid = Some (Inr (ray2\<lparr> hit := 1 \<rparr>))
   \<and> (\<exists>n. inBounds (demoCamera negGrid) ((ddaMove RealOps ^^ Suc n) (initRay RealOps (demoCamera negGrid) 0))
         \<and> ((ddaMove RealOps ^^ Suc n) (initRay RealOps (demoCamera negGrid) 0))\<lparr> hit := 1 \<rparr> = ray2\<lparr> hit := 1 \<rparr>
         \<and> (\<exists>v. gridAt negGrid ((ddaMove RealOps ^^ Suc n) (initRay RealOps (demoCamera negGrid) 0)) = Inr v \<and> 0 < v))"
proof -
  have wf: "wfGrid (demoCamera negGrid) negGrid"
    by (rule wfGrid_demo) (simp_all add: negGrid_def)
  have r: "castRay RealOps (demoCamera negGrid) 0 negGrid = Some (Inr (ray2\<lparr> hit := 1 \<rparr>))"
    by (rule castRay_negGrid(2) [OF demoCamera_eq])
  from castRay_stop_condition [OF wf, of RealOps 0] obtain n where
    "(inBounds (demoCamera negGrid) ((ddaMove RealOps ^^ Suc n) (initRay RealOps (demoCamera negGrid) 0))
        \<and> (\<exists>v. gridAt negGrid ((ddaMove RealOps ^^ Suc n) (initRay RealOps (demoCamera negGrid) 0)) = Inr v \<and> 0 < v)
        \<and> castRay RealOps (demoCamera negGrid) 0 negGrid
            = Some (Inr (((ddaMove RealOps ^^ Suc n) (initRay RealOps (demoCamera negGrid) 0))\<lparr> hit := 1 \<rparr>)))
     \<or> (\<not> inBounds (demoCamera negGrid) ((ddaMove RealOps ^^ Suc n) (initRay RealOps (demoCamera negGrid) 0))
        \<and> castRay RealOps (demoCamera negGrid) 0 negGrid
            = Some (Inr (((ddaMove RealOps ^^ Suc n) (initRay RealOps (demoCamera negGrid) 0))\<lparr> hit := 2 \<rparr>)))"
    by blast
  then show ?thesis
  proof (elim disjE conjE)
    assume "castRay RealOps (demoCamera negGrid) 0 negGrid
            = Some (Inr (((ddaMove RealOps ^^ Suc n) (initRay RealOps (demoCamera negGrid) 0))\<lparr> hit := 2 \<rparr>))"
    with r have "ray2\<lparr> hit := 1 \<rparr> = ((ddaMove RealOps ^^ Suc n) (initRay RealOps (demoCamera negGrid) 0))\<lparr> hit := 2 \<rparr>"
      by simp
    then have "hit (ray2\<lparr> hit := 1 \<rparr>) = hit (((ddaMove RealOps ^^ Suc n) (initRay RealOps (demoCamera negGrid) 0))\<lparr> hit := 2 \<rparr>)"
      by (rule arg_cong)
    then show ?thesis by simp
  next
    assume a: "inBounds (demoCamera negGrid) ((ddaMove RealOps ^^ Suc n) (initRay RealOps (demoCamera negGrid) 0))"
      "\<exists>v. gridAt negGrid ((ddaMove RealOps ^^ Suc n) (initRay RealOps (demoCamera negGrid) 0)) = Inr v \<and> 0 < v"
      "castRay RealOps (demoCamera negGrid) 0 negGrid
            = Some (Inr (((ddaMove RealOps ^^ Suc n) (initRay RealOps (demoCamera negGrid) 0))\<lparr> hit := 1 \<rparr>))"
    from a(3) r have "((ddaMove RealOps ^^ Suc n) (initRay RealOps (demoCamera negGrid) 0))\<lparr> hit := 1 \<rparr> = ray2\<lparr> hit := 1 \<rparr>"
      by simp
    with wf r a(1,2) show ?thesis by blast
  qed
qed

theorem dda_passes_nonzero_tile:
  "ddaStep RealOps (demoCamera negGrid) negGrid (initRay RealOps (demoCamera negGrid) 0) = Inr ray1
   \<and> inBounds (demoCamera negGrid) ray1 \<and> gridAt negGrid ray1 = Inr (-1) \<and> hit ray1 = 0
   \<and> castRay RealOps (demoCamera negGrid) 0 negGrid = Some (Inr (ray2\<lparr> hit := 1 \<rparr>))
   \<and> (mapX ray1, mapY ray1) = (2, 1) \<and> (mapX ray2, mapY ray2) = (2, 2)"
  using castRay_negGrid [OF demoCamera_eq]
  by (simp add: gridAt_cells ray_cells)


theorem castLevel_side_remap_witness:
  "\<exists>c'. castLevel RealOps (demoCamera texGrid) 0 texGrid 0 = Some (Inr (c', ray1\<lparr> hit := 1 \<rparr>, 4))
      \<and> rawTexNum (demoCamera texGrid) texGrid (ray1\<lparr> hit := 1 \<rparr>) = Inr 3
      \<and> side (ray1\<lparr> hit := 1 \<rparr>) = 0 \<and> remapSpec 3 = 4
      \<and> CurrTex (levels c' ! 0) ! 0 = Some (Image 4)"
proof -
  let ?c = "demoCamera texGrid" and ?r = "ray1\<lparr> hit := 1 \<rparr>"
  have r: "castRay RealOps ?c 0 texGrid = Some (Inr ?r)" by (rule castRay_texGrid [OF demoCamera_eq])
  have ib: "inBounds ?c ?r" using start_ray(2) [OF demoCamera_eq [of texGrid]] by (simp add: texGrid_def)
  have raw: "rawTexNum ?c texGrid ?r = Inr 3" using ib by (simp add: rawTexNum_def gridAt_cells bindE_def)
  have rm: "sideRemap (side ray1) 3 = 4" by (simp add: sideRemap_def ray_cells)
  note l = NewCamera_init_levels [OF demoCamera_eq [of texGrid]]
  from setCurrTex_first [OF l(1), of 4] l(2)
  obtain c' where c': "setCurrTex ?c 0 0 4 = Inr c'" "CurrTex (levels c' ! 0) ! 0 = Some (Image 4)"
    by (auto simp: demoTex_def)
  have cl: "castLevel RealOps ?c 0 texGrid 0 = Some (Inr (c', ?r, 4))"
    by (simp add: castLevel_def r raw rm c' bindE_def Let_def)
  from castLevel_side_remap [OF cl] raw have "side ?r = 0 \<and> 4 = remapSpec 3" by (auto simp: ray_cells)
  with cl raw c'(2) show ?thesis by auto
qed

theorem castLevel_terminates_witness:
  "castRay RealOps (demoCamera emptyGrid) 0 emptyGrid = Some (Inr (ray3\<lparr> hit := 2 \<rparr>))
   \<and> (\<exists>n. n \<le> 6 \<and> ((ddaMove RealOps ^^ Suc n) (initRay RealOps (demoCamera emptyGrid) 0))\<lparr> hit := 2 \<rparr> = ray3\<lparr> hit := 2 \<rparr>
          \<and> \<not> inBounds (demoCamera emptyGrid) ((ddaMove RealOps ^^ Suc n) (initRay RealOps (demoCamera emptyGrid) 0)))"
proof -
  let ?c = "demoCamera emptyGrid"
  have r: "castRay RealOps ?c 0 emptyGrid = Some (Inr (ray3\<lparr> hit := 2 \<rparr>))"
    by (rule castRay_emptyGrid [OF demoCamera_eq])
  have b: "nat (mapWidth ?c + mapHeight ?c) = 6"
    using NewCamera_init_map [OF demoCamera_eq [of emptyGrid]] by (simp add: emptyGrid_def)
  from castLevel_terminates [of ?c RealOps 0 emptyGrid 0] obtain n res where
    n: "n \<le> nat (mapWidth ?c + mapHeight ?c)" and res: "castRay RealOps ?c 0 emptyGrid = Some res"
    and cs: "(res = Inr (((ddaMove RealOps ^^ Suc n) (initRay RealOps ?c 0))\<lparr> hit := 1 \<rparr>)
            \<and> inBounds ?c ((ddaMove RealOps ^^ Suc n) (initRay RealOps ?c 0))
            \<and> (\<exists>v. gridAt emptyGrid ((ddaMove RealOps ^^ Suc n) (initRay RealOps ?c 0)) = Inr v \<and> 0 < v))
         \<or> (res = Inr (((ddaMove RealOps ^^ Suc n) (initRay RealOps ?c 0))\<lparr> hit := 2 \<rparr>)
            \<and> \<not> inBounds ?c ((ddaMove RealOps ^^ Suc n) (initRay RealOps ?c 0)))
         \<or> (\<exists>err. res = Inl err \<and> gridAt emptyGrid ((ddaMove RealOps ^^ Suc n) (initRay RealOps ?c 0)) = Inl err
            \<and> inBounds ?c ((ddaMove RealOps ^^ Suc n) (initRay RealOps ?c 0)) \<and> \<not> wfGrid ?c emptyGrid)"
    by blast
  from r res have e: "res = Inr (ray3\<lparr> hit := 2 \<rparr>)" by simp
  have no1: "ray3\<lparr> hit := 2 \<rparr> \<noteq> s\<lparr> hit := 1 \<rparr>" for s :: "real ray"
  proof
    assume "ray3\<lparr> hit := 2 \<rparr> = s\<lparr> hit := 1 \<rparr>"
    then have "hit (ray3\<lparr> hit := 2 \<rparr>) = hit (s\<lparr> hit := 1 \<rparr>)" by (rule arg_cong)
    then show False by simp
  qed
  from cs e no1 have "((ddaMove RealOps ^^ Suc n) (initRay RealOps ?c 0))\<lparr> hit := 2 \<rparr> = ray3\<lparr> hit := 2 \<rparr>
      \<and> \<not> inBounds ?c ((ddaMove RealOps ^^ Suc n) (initRay RealOps ?c 0))"
    by auto
  with n b r show ?thesis by auto
qed

lemma trunc_nonneg: "0 \<le> v \<Longrightarrow> trunc v = \<lfloor>v\<rfloor>"
  by (simp add: trunc_def)

lemma trunc_neg_iff: "trunc v < 0 \<or> v < 0 \<longleftrightarrow> v < 0"
  by (auto simp: trunc_def)

lemma trunc_ge_iff: "0 \<le> v \<Longrightarrow> n \<le> trunc v \<longleftrightarrow> of_int n \<le> v"
  by (simp add: trunc_def le_floor_iff)

lemma trunc_edge: "1 \<le> n \<Longrightarrow> trunc (of_int n - edgeDistance) = n - 1"
proof -
  assume n: "1 \<le> n"
  have "\<lfloor>of_int n - edgeDistance :: real\<rfloor> = n - 1"
    by (rule floor_unique) (simp_all add: edgeDistance_def)
  moreover have "(0::real) \<le> of_int n - edgeDistance" using n by (simp add: edgeDistance_def)
  ultimately show ?thesis by (simp add: trunc_def)
qed

lemma clampCoord_range:
  assumes "1 \<le> n"
  shows "0 \<le> clampCoord n v" "clampCoord n v < of_int n"
    "0 \<le> trunc (clampCoord n v)" "trunc (clampCoord n v) < n"
proof -
  from assms have n: "(1::real) \<le> of_int n" by simp
  show a: "0 \<le> clampCoord n v" using n by (auto simp: clampCoord_def edgeDistance_def)
  show b: "clampCoord n v < of_int n" using n by (auto simp: clampCoord_def edgeDistance_def)
  from a show "0 \<le> trunc (clampCoord n v)" by (simp add: trunc_def)
  from a b show "trunc (clampCoord n v) < n" by (simp add: trunc_def floor_less_iff)
qed

lemma axis_clamp:
  assumes "1 \<le> n"
  shows "(if trunc v < 0 \<or> v < 0 then (edgeDistance, 0)
          else if trunc v \<ge> n then (of_int n - edgeDistance, trunc (of_int n - edgeDistance))
          else (v, trunc v)) = (clampCoord n v, trunc (clampCoord n v))"
proof (cases "v < 0")
  case True
  then show ?thesis by (simp add: trunc_neg_iff clampCoord_def) (simp add: trunc_def edgeDistance_def)
next
  case False
  then have v: "0 \<le> v" by simp
  then have t: "\<not> trunc v < 0" by (simp add: trunc_def)
  show ?thesis
    using False t trunc_ge_iff [OF v, of n]
    by (simp add: clampCoord_def)
qed

lemma wfGrid_tileAt:
  assumes "wfGrid c g" "0 \<le> i" "i < mapWidth c" "0 \<le> j" "j < mapHeight c"
  shows "\<exists>v. tileAt g i j = Inr v"
proof -
  from assms have x: "i < int (length g)" "nat i < nat (mapWidth c)"
    by (auto simp: wfGrid_def)
  from assms(1) have "\<forall>n. n < length (take (nat (mapWidth c)) g)
      \<longrightarrow> mapHeight c \<le> int (length (take (nat (mapWidth c)) g ! n))"
    by (simp add: wfGrid_def list_all_length)
  moreover from x assms(2) have "nat i < length (take (nat (mapWidth c)) g)" by simp
  ultimately have "mapHeight c \<le> int (length (take (nat (mapWidth c)) g ! nat i))" by blast
  with x have "mapHeight c \<le> int (length (g ! nat i))" by simp
  with x assms show ?thesis by (simp add: tileAt_def index_def bindE_def)
qed

lemma getValidCameraMove_result:
  assumes "mapObj c = lvl0 # rest" "wfGrid c lvl0" "1 \<le> mapWidth c" "1 \<le> mapHeight c"
  shows "\<exists>v. 0 \<le> clampCoord (mapWidth c) mx \<and> clampCoord (mapWidth c) mx < of_int (mapWidth c)
      \<and> 0 \<le> clampCoord (mapHeight c) my \<and> clampCoord (mapHeight c) my < of_int (mapHeight c)
      \<and> tileAt lvl0 (trunc (clampCoord (mapWidth c) mx)) (trunc (clampCoord (mapHeight c) my)) = Inr v
      \<and> getValidCameraMove c mx my b =
          Inr (if X (pos c) = mx \<and> Y (pos c) = my then (X (pos c), Y (pos c))
               else if v \<le> 0 then (clampCoord (mapWidth c) mx, clampCoord (mapHeight c) my)
               else (X (pos c), Y (pos c)))"
proof -
  let ?tx = "clampCoord (mapWidth c) mx" and ?ty = "clampCoord (mapHeight c) my"
  note rx = clampCoord_range [OF assms(3), of mx]
  note ry = clampCoord_range [OF assms(4), of my]
  from wfGrid_tileAt [OF assms(2) rx(3,4) ry(3,4)] obtain v where v: "tileAt lvl0 (trunc ?tx) (trunc ?ty) = Inr v" ..
  have g: "getValidCameraMove c mx my b =
          Inr (if X (pos c) = mx \<and> Y (pos c) = my then (X (pos c), Y (pos c))
               else if v \<le> 0 then (?tx, ?ty) else (X (pos c), Y (pos c)))"
  proof (cases "X (pos c) = mx \<and> Y (pos c) = my")
    case True
    then show ?thesis by (simp add: getValidCameraMove_def)
  next
    case False
    have u: "getValidCameraMove c mx my b =
        bindE (index (mapObj c) 0)
          (\<lambda>firstLevel. bindE (index firstLevel (trunc ?tx))
            (\<lambda>col. bindE (index col (trunc ?ty))
              (\<lambda>v. Inr (if v \<le> 0 then (?tx, ?ty) else (X (pos c), Y (pos c))))))"
    proof -
      from False have nf: "(X (pos c) = mx \<and> Y (pos c) = my) = False" by simp
      show ?thesis
        by (simp add: getValidCameraMove_def Let_def nf axis_clamp [OF assms(3)] axis_clamp [OF assms(4)])
    qed
    have i0: "index (mapObj c) 0 = Inr lvl0" by (simp add: assms(1) index_def)
    from v obtain col where col: "index lvl0 (trunc ?tx) = Inr col" "index col (trunc ?ty) = Inr v"
      by (auto simp: tileAt_def bindE_def split: sum.splits)
    have "getValidCameraMove c mx my b = Inr (if v \<le> 0 then (?tx, ?ty) else (X (pos c), Y (pos c)))"
      unfolding u i0 by (simp add: bindE_def col)
    with False show ?thesis by auto
  qed
  from rx(1,2) ry(1,2) v g show ?thesis by blast
qed

text \<open>
  C2, as amended. On a map of at least one cell whose level-0 grid covers the map bounds,
  for every camera position and every candidate target position: a coordinate of the
  candidate below 0 is replaced by \<open>edgeDistance\<close>, a coordinate at or beyond \<open>mapWidth\<close>
  (\<open>mapHeight\<close>) by \<open>mapWidth - edgeDistance\<close> (\<open>mapHeight - edgeDistance\<close>), and a
  coordinate inside the map is kept as it is, so the clamped target lies in
  \<open>[0, mapWidth) \<times> [0, mapHeight)\<close>, though not always \<open>edgeDistance\<close> away from the edge.
  The level-0 tile under the clamped target exists, and the move returns the clamped target
  if that tile is \<open>\<le> 0\<close> and the unchanged position otherwise. A candidate equal to the
  current position is returned as it is, with no clamp and no tile test.
\<close>

theorem getValidCameraMove_rule:
  assumes "mapObj c = lvl0 # rest" "wfGrid c lvl0" "1 \<le> mapWidth c" "1 \<le> mapHeight c"
  shows "(\<exists>v. 0 \<le> clampCoord (mapWidth c) mx \<and> clampCoord (mapWidth c) mx < of_int (mapWidth c)
      \<and> 0 \<le> clampCoord (mapHeight c) my \<and> clampCoord (mapHeight c) my < of_int (mapHeight c)
      \<and> tileAt lvl0 (trunc (clampCoord (mapWidth c) mx)) (trunc (clampCoord (mapHeight c) my)) = Inr v
      \<and> getValidCameraMove c mx my b =
          Inr (if X (pos c) = mx \<and> Y (pos c) = my then (X (pos c), Y (pos c))
               else if v \<le> 0 then (clampCoord (mapWidth c) mx, clampCoord (mapHeight c) my)
               else (X (pos c), Y (pos c))))
    \<and> (\<exists>px py. getValidCameraMove c (X (pos c) + X (dir c) * sp) (Y (pos c) + Y (dir c) * sp) True = Inr (px, py)
          \<and> MoveCamera c sp = Inr (c\<lparr> pos := \<lparr> X = px, Y = py \<rparr> \<rparr>))
    \<and> (\<exists>px py. getValidCameraMove c (X (pos c) + X (plane c) * sp) (Y (pos c) + Y (plane c) * sp) True = Inr (px, py)
          \<and> StrafeCamera c sp = Inr (c\<lparr> pos := \<lparr> X = px, Y = py \<rparr> \<rparr>))"
proof (intro conjI)
  show "\<exists>v. 0 \<le> clampCoord (mapWidth c) mx \<and> clampCoord (mapWidth c) mx < of_int (mapWidth c)
      \<and> 0 \<le> clampCoord (mapHeight c) my \<and> clampCoord (mapHeight c) my < of_int (mapHeight c)
      \<and> tileAt lvl0 (trunc (clampCoord (mapWidth c) mx)) (trunc (clampCoord (mapHeight c) my)) = Inr v
      \<and> getValidCameraMove c mx my b =
          Inr (if X (pos c) = mx \<and> Y (pos c) = my then (X (pos c), Y (pos c))
               else if v \<le> 0 then (clampCoord (mapWidth c) mx, clampCoord (mapHeight c) my)
               else (X (pos c), Y (pos c)))"
    by (rule getValidCameraMove_result [OF assms])
  have ok: "\<exists>px py. getValidCameraMove c tx ty True = Inr (px, py)" for tx ty
    using getValidCameraMove_result [OF assms, of tx ty True] by (metis surj_pair)
  from ok obtain px py where
    m: "getValidCameraMove c (X (pos c) + X (dir c) * sp) (Y (pos c) + Y (dir c) * sp) True = Inr (px, py)"
    by blast
  then have "MoveCamera c sp = Inr (c\<lparr> pos := \<lparr> X = px, Y = py \<rparr> \<rparr>)"
    by (simp add: MoveCamera_def Let_def bindE_def)
  with m show "\<exists>px py. getValidCameraMove c (X (pos c) + X (dir c) * sp) (Y (pos c) + Y (dir c) * sp) True = Inr (px, py)
          \<and> MoveCamera c sp = Inr (c\<lparr> pos := \<lparr> X = px, Y = py \<rparr> \<rparr>)" by blast
  from ok obtain qx qy where
    m: "getValidCameraMove c (X (pos c) + X (plane c) * sp) (Y (pos c) + Y (plane c) * sp) True = Inr (qx, qy)"
    by blast
  then have "StrafeCamera c sp = Inr (c\<lparr> pos := \<lparr> X = qx, Y = qy \<rparr> \<rparr>)"
    by (simp add: StrafeCamera_def Let_def bindE_def)
  with m show "\<exists>px py. getValidCameraMove c (X (pos c) + X (plane c) * sp) (Y (pos c) + Y (plane c) * sp) True = Inr (px, py)
          \<and> StrafeCamera c sp = Inr (c\<lparr> pos := \<lparr> X = px, Y = py \<rparr> \<rparr>)" by blast
qed

lemma NewCamera_init_mapObj:
  assumes "NewCamera_init sv width height ts m th = Inr c"
  shows "mapObj c = m"
  using assms by (auto simp: NewCamera_init_def Let_def bindE_def split: sum.splits if_splits)

lemma demoCamera_fields:
  "pos (demoCamera g) = \<lparr> X = 1, Y = 1 \<rparr>" "dir (demoCamera g) = \<lparr> X = 1, Y = 0 \<rparr>"
  "mapObj (demoCamera g) = [g]" "mapWidth (demoCamera g) = int (length g)"
  "mapHeight (demoCamera g) = int (length g)" "fovDepth (demoCamera g) = 1"
proof -
  note e = demoCamera_eq [of g]
  show "pos (demoCamera g) = \<lparr> X = 1, Y = 1 \<rparr>" by (rule NewCamera_init_pose(1) [OF e])
  show "dir (demoCamera g) = \<lparr> X = 1, Y = 0 \<rparr>" by (rule NewCamera_init_pose(2) [OF e])
  show "mapObj (demoCamera g) = [g]" by (rule NewCamera_init_mapObj [OF e])
  show "mapWidth (demoCamera g) = int (length g)" by (rule NewCamera_init_map(1) [OF e])
  show "mapHeight (demoCamera g) = int (length g)" by (rule NewCamera_init_map(2) [OF e])
  show "fovDepth (demoCamera g) = 1" by (rule NewCamera_init_pose(5) [OF e])
qed

lemma wfGrid_emptyGrid: "wfGrid (demoCamera emptyGrid) emptyGrid"
  by (rule wfGrid_demo) (simp_all add: emptyGrid_def)

theorem getValidCameraMove_rule_witness:
  "mapObj (demoCamera emptyGrid) = emptyGrid # [] \<and> wfGrid (demoCamera emptyGrid) emptyGrid
   \<and> 1 \<le> mapWidth (demoCamera emptyGrid) \<and> 1 \<le> mapHeight (demoCamera emptyGrid)
   \<and> clampCoord (mapWidth (demoCamera emptyGrid)) 8 = 29 / 10
   \<and> getValidCameraMove (demoCamera emptyGrid) 8 8 True = Inr (29 / 10, 29 / 10)"
proof -
  let ?c = "demoCamera emptyGrid"
  have m: "mapObj ?c = emptyGrid # []" by (simp add: demoCamera_fields)
  have wd: "mapWidth ?c = 3" "mapHeight ?c = 3" by (simp_all add: demoCamera_fields emptyGrid_def)
  have cl: "clampCoord 3 8 = 29 / 10" by (simp add: clampCoord_def edgeDistance_def)
  have tr: "trunc (29 / 10) = 2"
  proof -
    have "\<lfloor>29 / 10 :: real\<rfloor> = 2" by (rule floor_unique) simp_all
    then show ?thesis by (simp add: trunc_def)
  qed
  have t: "tileAt emptyGrid 2 2 = Inr 0" by (simp add: tileAt_def index_def bindE_def emptyGrid_def)
  from getValidCameraMove_rule [OF m wfGrid_emptyGrid, of 8 8 True 0]
  obtain v where "tileAt emptyGrid (trunc (clampCoord 3 8)) (trunc (clampCoord 3 8)) = Inr v"
    and g: "getValidCameraMove ?c 8 8 True =
          Inr (if X (pos ?c) = 8 \<and> Y (pos ?c) = 8 then (X (pos ?c), Y (pos ?c))
               else if v \<le> 0 then (clampCoord 3 8, clampCoord 3 8) else (X (pos ?c), Y (pos ?c)))"
    by (auto simp: wd)
  with t have "v = 0" by (simp add: cl tr)
  with g have "getValidCameraMove ?c 8 8 True = Inr (29 / 10, 29 / 10)"
    by (simp add: demoCamera_fields cl)
  with m wfGrid_emptyGrid wd cl show ?thesis by simp
qed

theorem move_inside_edge_margin:
  "getValidCameraMove (demoCamera emptyGrid) (1 / 20) 1 True = Inr (1 / 20, 1)
   \<and> (1 / 20 :: real) < edgeDistance
   \<and> map_sum id pos (MoveCamera (demoCamera emptyGrid) (- 19 / 20)) = Inr \<lparr> X = 1 / 20, Y = 1 \<rparr>"
proof -
  let ?c = "demoCamera emptyGrid"
  have t0: "trunc (1 / 20) = 0"
  proof -
    have "\<lfloor>1 / 20 :: real\<rfloor> = 0" by (rule floor_unique) simp_all
    then show ?thesis by (simp add: trunc_def)
  qed
  have t1: "trunc 1 = 1" by (simp add: trunc_def)
  have g: "getValidCameraMove ?c (1 / 20) 1 True = Inr (1 / 20, 1)"
    by (simp add: getValidCameraMove_def Let_def demoCamera_fields t0 t1 index_def bindE_def emptyGrid_def)
  then have "MoveCamera ?c (- 19 / 20) = Inr (?c\<lparr> pos := \<lparr> X = 1 / 20, Y = 1 \<rparr> \<rparr>)"
    by (simp add: MoveCamera_def Let_def demoCamera_fields bindE_def)
  with g show ?thesis by (simp add: edgeDistance_def)
qed






declare combPass.simps [simp del]

lemma shrinkGap_bounds:
  "1 \<le> shrinkGap gap" "1 < gap \<Longrightarrow> shrinkGap gap < gap" "gap \<le> 1 \<Longrightarrow> shrinkGap gap = 1"
proof -
  show "1 \<le> shrinkGap gap" by (simp add: shrinkGap_def Let_def)
  show "shrinkGap gap < gap" if "1 < gap"
  proof -
    from that have "(gap * 10) sdiv 13 = (gap * 10) div 13" by (simp add: signed_divide_int_def)
    with that show ?thesis by (auto simp: shrinkGap_def Let_def)
  qed
  show "shrinkGap gap = 1" if "gap \<le> 1"
  proof -
    have "(gap * 10) sdiv 13 \<le> 0"
    proof (cases "0 \<le> gap")
      case True
      with that have "gap = 0 \<or> gap = 1" by auto
      then show ?thesis by (auto simp: signed_divide_int_def)
    next
      case False
      then have "(gap * 10) sdiv 13 = - ((- gap * 10) div 13)"
        by (simp add: signed_divide_int_def sgn_if)
      moreover from False have "0 \<le> (- gap * 10) div 13" by (simp add: pos_imp_zdiv_nonneg_iff)
      ultimately show ?thesis by simp
    qed
    then show ?thesis by (simp add: shrinkGap_def Let_def)
  qed
qed

lemma filter_length_mset: "mset xs = mset ys \<Longrightarrow> length (filter P xs) = length (filter P ys)"
proof -
  assume "mset xs = mset ys"
  then have "mset (filter P xs) = mset (filter P ys)" by simp
  then show ?thesis by (rule mset_eq_length)
qed

lemma ascents_adjacent_swap:
  "Suc k < length d \<Longrightarrow> d ! k < d ! Suc k \<Longrightarrow> Suc (ascents (d[k := d ! Suc k, Suc k := d ! k])) = ascents d"
proof (induction d arbitrary: k)
  case Nil
  then show ?case by simp
next
  case (Cons x xs)
  show ?case
  proof (cases k)
    case 0
    with Cons.prems obtain y ys where xs: "xs = y # ys" by (cases xs) auto
    with 0 Cons.prems have "x < y" by simp
    then have "\<not> y < x" by simp
    with xs 0 \<open>x < y\<close> show ?thesis by simp
  next
    case (Suc j)
    with Cons.prems have j: "Suc j < length xs" "xs ! j < xs ! Suc j" by simp_all
    have "mset (xs[j := xs ! Suc j, Suc j := xs ! j]) = mset xs"
      using mset_swap [of "Suc j" xs j] j(1) by simp
    then have f: "length (filter ((<) x) (xs[j := xs ! Suc j, Suc j := xs ! j])) = length (filter ((<) x) xs)"
      by (rule filter_length_mset)
    from Cons.IH [OF j] f Suc show ?thesis by simp
  qed
qed

lemma combPass_preserves:
  "combPass amount gap i (order, dists, swapped) = Inr (order', dists', swapped')
    \<Longrightarrow> length order = length dists
    \<Longrightarrow> length order' = length order \<and> length dists' = length dists
        \<and> mset (zip order' dists') = mset (zip order dists)"
proof (induction amount gap i "(order, dists, swapped)" arbitrary: order dists swapped rule: combPass.induct)
  case (1 amount gap i order dists swapped)
  show ?case
  proof (cases "i < amount - gap")
    case False
    with "1.prems" show ?thesis by (simp add: combPass.simps [of amount gap i])
  next
    case True
    note u = combPass.simps [of amount gap i]
    let ?j = "i + gap"
    from True "1.prems"(1) obtain di dj where di: "index dists i = Inr di" and dj: "index dists ?j = Inr dj"
      by (auto simp: u Let_def split: sum.splits)
    show ?thesis
    proof (cases "di < dj")
      case False
      with True di dj "1.prems"(1) have "combPass amount gap (i + 1) (order, dists, swapped) = Inr (order', dists', swapped')"
        by (simp add: u Let_def)
      from "1.hyps"(2) [OF True refl di dj False this "1.prems"(2)] show ?thesis .
    next
      case lt: True
      with True di dj "1.prems"(1) obtain oi oj where oi: "index order i = Inr oi" and oj: "index order ?j = Inr oj"
        and rec: "combPass amount gap (i + 1) (order[nat i := oj, nat ?j := oi], dists[nat i := dj, nat ?j := di], True)
                   = Inr (order', dists', swapped')"
        by (auto simp: u Let_def split: sum.splits)
      let ?o = "order[nat i := oj, nat ?j := oi]" and ?d = "dists[nat i := dj, nat ?j := di]"
      have len: "length ?o = length ?d" using "1.prems"(2) by simp
      from "1.hyps"(1) [OF True refl di dj lt oi oj rec len]
      have ih: "length order' = length ?o \<and> length dists' = length ?d \<and> mset (zip order' dists') = mset (zip ?o ?d)" .
      from di dj oi oj have r: "nat i < length dists" "nat ?j < length dists"
        and v: "dists ! nat i = di" "dists ! nat ?j = dj" "order ! nat i = oi" "order ! nat ?j = oj"
        by (auto simp: index_def split: if_splits)
      have "zip ?o ?d = (zip order dists)[nat i := (zip order dists) ! nat ?j, nat ?j := (zip order dists) ! nat i]"
        using r v "1.prems"(2) by (simp add: zip_update [symmetric])
      also have "mset \<dots> = mset (zip order dists)"
        using mset_swap [of "nat ?j" "zip order dists" "nat i"] r "1.prems"(2) by simp
      finally show ?thesis using ih by simp
    qed
  qed
qed

lemma combPass_no_panic:
  "0 \<le> i \<Longrightarrow> 0 \<le> gap \<Longrightarrow> amount \<le> int (length dists) \<Longrightarrow> length order = length dists
    \<Longrightarrow> \<exists>res. combPass amount gap i (order, dists, swapped) = Inr res"
proof (induction amount gap i "(order, dists, swapped)" arbitrary: order dists swapped rule: combPass.induct)
  case (1 amount gap i order dists swapped)
  show ?case
  proof (cases "i < amount - gap")
    case False
    then show ?thesis by (simp add: combPass.simps [of amount gap i])
  next
    case True
    note u = combPass.simps [of amount gap i]
    let ?j = "i + gap"
    from True "1.prems" have r: "0 \<le> i" "i < int (length dists)" "0 \<le> ?j" "?j < int (length dists)" by auto
    then have di: "index dists i = Inr (dists ! nat i)" and dj: "index dists ?j = Inr (dists ! nat ?j)"
      by (simp_all add: index_def)
    from r "1.prems"(4) have oi: "index order i = Inr (order ! nat i)" and oj: "index order ?j = Inr (order ! nat ?j)"
      by (simp_all add: index_def)
    show ?thesis
    proof (cases "dists ! nat i < dists ! nat ?j")
      case False
      from "1.hyps"(2) [OF True refl di dj False _ "1.prems"(2,3,4)] "1.prems"(1)
      obtain res where "combPass amount gap (i + 1) (order, dists, swapped) = Inr res" by auto
      with True di dj False show ?thesis by (simp add: u Let_def del: split_paired_Ex)
    next
      case lt: True
      let ?o = "order[nat i := order ! nat ?j, nat ?j := order ! nat i]"
      let ?d = "dists[nat i := dists ! nat ?j, nat ?j := dists ! nat i]"
      have "\<exists>res. combPass amount gap (i + 1) (?o, ?d, True) = Inr res"
        by (rule "1.hyps"(1) [OF True refl di dj lt oi oj]) (use "1.prems" in auto)
      then obtain res where "combPass amount gap (i + 1) (?o, ?d, True) = Inr res" ..
      with True di dj lt oi oj show ?thesis by (simp add: u Let_def del: split_paired_Ex)
    qed
  qed
qed

lemma combPass_adjacent:
  "combPass amount 1 i (order, dists, swapped) = Inr (order', dists', swapped') \<Longrightarrow> 0 \<le> i
    \<Longrightarrow> (order' = order \<and> dists' = dists \<and> swapped' = swapped
          \<and> (\<forall>k. i \<le> k \<and> k < amount - 1 \<longrightarrow> \<not> dists ! nat k < dists ! nat (k + 1)))
      \<or> (swapped' \<and> ascents dists' < ascents dists)"
proof (induction amount "1::int" i "(order, dists, swapped)" arbitrary: order dists swapped rule: combPass.induct)
  case (1 amount i order dists swapped)
  show ?case
  proof (cases "i < amount - 1")
    case False
    with "1.prems" show ?thesis by (simp add: combPass.simps [of amount 1 i])
  next
    case True
    note u = combPass.simps [of amount 1 i]
    let ?j = "i + 1"
    from True "1.prems"(1) obtain di dj where di: "index dists i = Inr di" and dj: "index dists ?j = Inr dj"
      by (auto simp: u Let_def split: sum.splits)
    from di dj have r: "nat i < length dists" "nat ?j < length dists"
      and v: "dists ! nat i = di" "dists ! nat ?j = dj"
      by (auto simp: index_def split: if_splits)
    have i1: "0 \<le> i + 1" using "1.prems"(2) by simp
    show ?thesis
    proof (cases "di < dj")
      case False
      with True di dj "1.prems"(1) have "combPass amount 1 (i + 1) (order, dists, swapped) = Inr (order', dists', swapped')"
        by (simp add: u Let_def)
      from "1.hyps"(2) [OF True refl di dj False this i1]
      show ?thesis
      proof
        assume a: "order' = order \<and> dists' = dists \<and> swapped' = swapped
          \<and> (\<forall>k. i + 1 \<le> k \<and> k < amount - 1 \<longrightarrow> \<not> dists ! nat k < dists ! nat (k + 1))"
        have "\<not> dists ! nat k < dists ! nat (k + 1)" if "i \<le> k \<and> k < amount - 1" for k
        proof (cases "k = i")
          case True
          with False v show ?thesis by simp
        next
          case False
          with that a show ?thesis by simp
        qed
        with a show ?thesis by blast
      next
        assume "swapped' \<and> ascents dists' < ascents dists"
        then show ?thesis ..
      qed
    next
      case lt: True
      with True di dj "1.prems"(1) obtain oi oj where oi: "index order i = Inr oi" and oj: "index order ?j = Inr oj"
        and rec: "combPass amount 1 (i + 1) (order[nat i := oj, nat ?j := oi], dists[nat i := dj, nat ?j := di], True)
                   = Inr (order', dists', swapped')"
        by (auto simp: u Let_def split: sum.splits)
      let ?d = "dists[nat i := dj, nat ?j := di]"
      have nj: "nat ?j = Suc (nat i)" using "1.prems"(2) by simp
      have "Suc (ascents ?d) = ascents dists"
        using ascents_adjacent_swap [of "nat i" dists] r v lt by (simp add: nj)
      then have less: "ascents ?d < ascents dists" by simp
      from "1.hyps"(1) [OF True refl di dj lt oi oj rec i1]
      have "(dists' = ?d \<and> swapped' = True) \<or> (swapped' \<and> ascents dists' < ascents ?d)" by blast
      with less show ?thesis by auto
    qed
  qed
qed

text \<open>
  Lines 685-705: the loop \<^verbatim>\<open>for gap > 1 || swapped\<close>. It terminates because the gap
  falls while it is above 1, and once it is 1 each pass that swaps lowers \<open>ascents\<close>.
\<close>

function combLoop :: "int \<Rightarrow> int \<Rightarrow> bool \<Rightarrow> int list \<times> 'a::linorder list \<Rightarrow> error + int list \<times> 'a list" where
  "combLoop amount gap swapped (order, dists) =
    (if gap > 1 \<or> swapped
     then (let gap' = shrinkGap gap
           in case combPass amount gap' 0 (order, dists, False) of
                Inl e \<Rightarrow> Inl e
              | Inr (order', dists', swapped') \<Rightarrow> combLoop amount gap' swapped' (order', dists'))
     else Inr (order, dists))"
  by pat_completeness auto
termination
proof (relation "measures [\<lambda>(amount, gap, swapped, order, dists). nat (max gap 1),
                          \<lambda>(amount, gap, swapped, order, dists). ascents dists + (if swapped then 1 else 0)]",
       goal_cases)
  case 1
  then show ?case by simp
next
  case (2 amount gap swapped order dists gap' res order' rest dists' swapped')
  then have pass: "combPass amount (shrinkGap gap) 0 (order, dists, False) = Inr (order', dists', swapped')"
    by simp
  show ?case
  proof (cases "1 < gap")
    case True
    with shrinkGap_bounds(1,2) [of gap] 2 show ?thesis by simp
  next
    case False
    then have g: "shrinkGap gap = 1" by (simp add: shrinkGap_bounds(3))
    from False 2 have sw: swapped by simp
    from combPass_adjacent [OF pass [unfolded g]]
    have "(dists' = dists \<and> swapped' = False) \<or> (swapped' \<and> ascents dists' < ascents dists)" by auto
    with False g sw 2 show ?thesis by auto
  qed
qed

text \<open>
  Lines 682-706.
\<close>

definition combSort :: "int list \<Rightarrow> 'a::linorder list \<Rightarrow> int \<Rightarrow> error + int list \<times> 'a list" where
  "combSort order dists amount = combLoop amount amount False (order, dists)"

declare combLoop.simps [simp del]

text \<open>
  No two neighbours among the first \<open>amount\<close> elements ascend.
\<close>

definition settled :: "int \<Rightarrow> 'a::linorder list \<Rightarrow> bool" where
  "settled amount dists \<longleftrightarrow> (\<forall>k. 0 \<le> k \<and> k < amount - 1 \<longrightarrow> \<not> dists ! nat k < dists ! nat (k + 1))"

lemma combLoop_post:
  "combLoop amount gap swapped (order, dists) = Inr (order', dists')
    \<Longrightarrow> length order = length dists
    \<Longrightarrow> (gap \<le> 1 \<and> \<not> swapped \<longrightarrow> settled amount dists)
    \<Longrightarrow> length order' = length order \<and> length dists' = length dists
        \<and> mset (zip order' dists') = mset (zip order dists) \<and> settled amount dists'"
proof (induction amount gap swapped "(order, dists)" arbitrary: order dists rule: combLoop.induct)
  case (1 amount gap swapped order dists)
  note u = combLoop.simps [of amount gap swapped order dists]
  show ?case
  proof (cases "gap > 1 \<or> swapped")
    case False
    with "1.prems" show ?thesis by (simp add: u)
  next
    case True
    let ?g = "shrinkGap gap"
    from True "1.prems"(1) obtain o1 d1 s1 where
      pass: "combPass amount ?g 0 (order, dists, False) = Inr (o1, d1, s1)"
      and rec: "combLoop amount ?g s1 (o1, d1) = Inr (order', dists')"
      by (auto simp: u Let_def split: sum.splits)
    note p = combPass_preserves [OF pass "1.prems"(2)]
    then have len1: "length o1 = length d1" using "1.prems"(2) by simp
    have inv: "?g \<le> 1 \<and> \<not> s1 \<longrightarrow> settled amount d1"
    proof
      assume a: "?g \<le> 1 \<and> \<not> s1"
      with shrinkGap_bounds(1) [of gap] have g: "?g = 1" by simp
      from combPass_adjacent [OF pass [unfolded g]] a
      show "settled amount d1" by (auto simp: settled_def)
    qed
    from "1.hyps" [OF True refl pass refl refl rec len1 inv]
    have "length order' = length o1 \<and> length dists' = length d1
        \<and> mset (zip order' dists') = mset (zip o1 d1) \<and> settled amount dists'"
      by simp
    with p show ?thesis by simp
  qed
qed

lemma combLoop_no_panic:
  "amount \<le> int (length dists) \<Longrightarrow> length order = length dists
    \<Longrightarrow> \<exists>res. combLoop amount gap swapped (order, dists) = Inr res"
proof (induction amount gap swapped "(order, dists)" arbitrary: order dists rule: combLoop.induct)
  case (1 amount gap swapped order dists)
  note u = combLoop.simps [of amount gap swapped order dists]
  show ?case
  proof (cases "gap > 1 \<or> swapped")
    case False
    then show ?thesis unfolding u by simp
  next
    case True
    let ?g = "shrinkGap gap"
    have "0 \<le> ?g" using shrinkGap_bounds(1) [of gap] by simp
    from combPass_no_panic [OF _ this "1.prems", of 0 False]
    obtain o1 d1 s1 where pass: "combPass amount ?g 0 (order, dists, False) = Inr (o1, d1, s1)"
      by auto
    note p = combPass_preserves [OF pass "1.prems"(2)]
    have "\<exists>res. combLoop amount ?g s1 (o1, d1) = Inr res"
      by (rule "1.hyps" [OF True refl pass refl refl]) (use p "1.prems" in simp_all)
    then obtain res where "combLoop amount ?g s1 (o1, d1) = Inr res" ..
    with True pass show ?thesis unfolding u by (simp add: Let_def del: split_paired_Ex)
  qed
qed

lemma settled_sorted:
  assumes "settled (int (length dists)) dists"
  shows "sorted_wrt (\<ge>) dists"
proof -
  have "\<forall>i. Suc i < length dists \<longrightarrow> dists ! i \<ge> dists ! Suc i"
  proof (intro allI impI)
    fix i assume i: "Suc i < length dists"
    then have "0 \<le> int i \<and> int i < int (length dists) - 1" by simp
    with assms have "\<not> dists ! nat (int i) < dists ! nat (int i + 1)"
      unfolding settled_def by blast
    moreover have "nat (int i + 1) = Suc i" by simp
    ultimately show "dists ! i \<ge> dists ! Suc i" by simp
  qed
  moreover have "transp ((\<ge>) :: 'a \<Rightarrow> 'a \<Rightarrow> bool)" by (auto simp: transp_def)
  ultimately show ?thesis by (simp add: sorted_wrt_iff_nth_Suc_transp)
qed

text \<open>
  C5. For a distance slice and an order slice of the same length \<open>n\<close>,
  \<^verbatim>\<open>combSort(order, dist, n)\<close> returns without a panic, the distances are then sorted in
  non-increasing order, and the pairs \<open>(order[i], dist[i])\<close> are a permutation of the pairs
  of the input: every order entry keeps its own distance, and the order slice holds the
  same entries as before, so an order slice that lists the indices \<open>0..n-1\<close> still lists
  each of them once.
\<close>

theorem combSort_sorts:
  assumes "length order = length dists" "amount = int (length dists)"
  shows "\<exists>order' dists'. combSort order dists amount = Inr (order', dists')
      \<and> sorted_wrt (\<ge>) dists'
      \<and> mset (zip order' dists') = mset (zip order dists)
      \<and> length order' = length dists' \<and> length dists' = length dists
      \<and> mset order' = mset order \<and> mset dists' = mset dists"
proof -
  from combLoop_no_panic [of amount dists order amount False] assms
  obtain order' dists' where r: "combLoop amount amount False (order, dists) = Inr (order', dists')"
    by auto
  have init: "amount \<le> 1 \<and> \<not> False \<longrightarrow> settled amount dists" by (simp add: settled_def)
  from combLoop_post [OF r assms(1) init]
  have len: "length order' = length order" "length dists' = length dists"
    and ms: "mset (zip order' dists') = mset (zip order dists)" and st: "settled amount dists'"
    by simp_all
  from st len(2) assms(2) have srt: "sorted_wrt (\<ge>) dists'" by (simp add: settled_sorted)
  have l2: "length order' = length dists'" using len assms(1) by simp
  from ms have "image_mset fst (mset (zip order' dists')) = image_mset fst (mset (zip order dists))" by simp
  then have mo: "mset order' = mset order" using l2 assms(1) by (simp flip: mset_map)
  from ms have "image_mset snd (mset (zip order' dists')) = image_mset snd (mset (zip order dists))" by simp
  then have md: "mset dists' = mset dists" using l2 assms(1) by (simp flip: mset_map)
  from r srt ms l2 len(2) mo md show ?thesis by (simp add: combSort_def)
qed

theorem combSort_sorts_witness:
  "length [0, 1, 2, 3 :: int] = length [5, 9, 7, 9 :: int] \<and> (4 :: int) = int (length [5, 9, 7, 9 :: int])
   \<and> combSort [0, 1, 2, 3] [5, 9, 7, 9 :: int] 4 = Inr ([3, 1, 2, 0], [9, 9, 7, 5])
   \<and> sorted_wrt (\<ge>) [9, 9, 7, 5 :: int]
   \<and> mset [3, 1, 2, 0 :: int] = mset [0, 1, 2, 3]"
proof -
  have e: "combSort [0, 1, 2, 3] [5, 9, 7, 9 :: int] 4 = Inr ([3, 1, 2, 0], [9, 9, 7, 5])"
    by code_simp
  have "\<exists>order' dists'. combSort [0, 1, 2, 3] [5, 9, 7, 9 :: int] 4 = Inr (order', dists')
      \<and> sorted_wrt (\<ge>) dists'
      \<and> mset (zip order' dists') = mset (zip [0, 1, 2, 3] [5, 9, 7, 9 :: int])
      \<and> length order' = length dists' \<and> length dists' = length [5, 9, 7, 9 :: int]
      \<and> mset order' = mset [0, 1, 2, 3] \<and> mset dists' = mset [5, 9, 7, 9 :: int]"
    by (rule combSort_sorts) simp_all
  then obtain order' dists' where "combSort [0, 1, 2, 3] [5, 9, 7, 9 :: int] 4 = Inr (order', dists')"
    "sorted_wrt (\<ge>) dists'" "mset order' = mset [0, 1, 2, 3]"
    by blast
  with e have "sorted_wrt (\<ge>) [9, 9, 7, 5 :: int]" "mset [3, 1, 2, 0 :: int] = mset [0, 1, 2, 3]" by simp_all
  with e show ?thesis by simp
qed

declare castSpriteLoop.simps [simp del]

lemma stripeVisible_pos: "stripeVisible F c v stripe = Inr True \<Longrightarrow> 0 < stripe"
  by (auto simp: stripeVisible_def split: if_splits)

lemma store_index: "store xs i v = Inr ys \<Longrightarrow> index ys i = Inr v \<and> length ys = length xs"
  by (auto simp: store_def index_def split: if_splits)

lemma store_nth0: "store xs i v = Inr ys \<Longrightarrow> 0 < i \<Longrightarrow> ys ! 0 = xs ! 0 \<and> length ys = length xs"
  by (auto simp: store_def split: if_splits)

lemma writeStripe_column0:
  assumes "writeStripe F v stripe texX texStartY texEndY slcs (Some lvl) = Inr lvl'"
    and "0 < stripe" "column0Clear cw lvl"
  shows "column0Clear cw lvl'"
proof -
  from assms(1) obtain sl cts0 rect cts ct sv st where
    c0: "store (Cts lvl) stripe sl = Inr cts0"
    and c1: "store cts0 stripe (Some (rect\<lparr> MinY := MinY (spriteTexRect v) + texStartY + 1,
                          MaxY := MinY (spriteTexRect v) + texEndY \<rparr>)) = Inr cts"
    and c2: "store (CurrTex lvl) stripe (Some (spriteTex v)) = Inr ct"
    and c3: "store (St lvl) stripe (Some (spriteTint F (transformY v))) = Inr st"
    and l: "lvl' = lvl\<lparr> Sv := sv, Cts := cts, St := st, CurrTex := ct \<rparr>"
    by (auto simp: writeStripe_def bindE_def deref_def split: sum.splits option.splits)
  from store_nth0 [OF c0 assms(2)] store_nth0 [OF c1 assms(2)] store_nth0 [OF c2 assms(2)]
    store_nth0 [OF c3 assms(2)] assms(3) l
  show ?thesis by (simp add: column0Clear_def)
qed

lemma makeSpriteLevel_column0:
  assumes "makeSpriteLevel sliceView c idx lvls = Inr (lvl, ls)" "0 < w c"
  shows "column0Clear (w c) lvl \<and> index ls idx = Inr (Some lvl)"
  using assms
  by (auto simp: makeSpriteLevel_def Let_def bindE_def column0Clear_def split: sum.splits if_splits
      dest: store_index)

lemma castSpriteStripe_slot:
  assumes "castSpriteStripe sliceView makeSlices F c v idx stripe s = Inr s'"
    and "0 < w c" "slotClear (w c) idx s"
  shows "slotClear (w c) idx s'"
proof (cases "stripeVisible F c v stripe")
  case (Inl e)
  with assms(1) show ?thesis by (simp add: castSpriteStripe_def bindE_def)
next
  case (Inr vis)
  show ?thesis
  proof (cases vis)
    case False
    with Inr assms(1) have "s' = s" by (simp add: castSpriteStripe_def bindE_def)
    with assms(3) show ?thesis by simp
  next
    case True
    with Inr have pos: "0 < stripe" by (simp add: stripeVisible_pos)
    define acq where "acq = (if \<not> renderSprite s
               then bindE (makeSpriteLevel sliceView c idx (sLvls s)) (\<lambda>(lvl, ls).
                      Inr (Some lvl,
                           s\<lparr> sLvls := ls, renderSprite := True,
                              spriteSlices := makeSlices (spriteTexWidth v) (spriteTexHeight v)
                                                (MinX (spriteTexRect v)) (MinY (spriteTexRect v)) \<rparr>))
               else bindE (index (sLvls s) idx) (\<lambda>l. Inr (l, s)))"
    from assms(1) Inr True obtain spriteLvl s1 where acq: "acq = Inr (spriteLvl, s1)"
      by (cases acq) (auto simp: castSpriteStripe_def bindE_def acq_def)
    have got: "\<exists>lvl. spriteLvl = Some lvl \<and> column0Clear (w c) lvl
                \<and> index (sLvls s1) idx = Inr (Some lvl) \<and> renderSprite s1"
    proof (cases "renderSprite s")
      case False
      with acq obtain lvl ls where m: "makeSpriteLevel sliceView c idx (sLvls s) = Inr (lvl, ls)"
        and e: "spriteLvl = Some lvl" "sLvls s1 = ls" "renderSprite s1"
        by (auto simp: acq_def bindE_def split: sum.splits)
      from makeSpriteLevel_column0 [OF m assms(2)] e show ?thesis by simp
    next
      case True
      with acq have e: "index (sLvls s) idx = Inr spriteLvl" "s1 = s"
        by (auto simp: acq_def bindE_def split: sum.splits)
      with True assms(3) show ?thesis by (auto simp: slotClear_def)
    qed
    then obtain lvl where lvl: "spriteLvl = Some lvl" "column0Clear (w c) lvl"
      "index (sLvls s1) idx = Inr (Some lvl)" "renderSprite s1" by blast
    have s1ok: "slotClear (w c) idx s1" using lvl by (auto simp: slotClear_def)
    from assms(1) Inr True acq
    have "s' = s1 \<or> (\<exists>texX texStartY texEndY lvl' ls.
            writeStripe F v stripe texX texStartY texEndY (fst (spriteSlices s1)) spriteLvl = Inr lvl'
          \<and> store (sLvls s1) idx (Some lvl') = Inr ls \<and> s' = s1\<lparr> sLvls := ls \<rparr>)"
      unfolding castSpriteStripe_def acq_def [symmetric]
      by (auto simp: bindE_def split: sum.splits if_splits) blast
    then show ?thesis
    proof (elim disjE exE conjE)
      assume "s' = s1"
      with s1ok show ?thesis by simp
    next
      fix texX texStartY texEndY lvl' ls
      assume w: "writeStripe F v stripe texX texStartY texEndY (fst (spriteSlices s1)) spriteLvl = Inr lvl'"
        and st: "store (sLvls s1) idx (Some lvl') = Inr ls" and s': "s' = s1\<lparr> sLvls := ls \<rparr>"
      from writeStripe_column0 [OF w [unfolded lvl(1)] pos lvl(2)] have "column0Clear (w c) lvl'" .
      with store_index [OF st] s' show ?thesis by (auto simp: slotClear_def)
    qed
  qed
qed

lemma castSpriteLoop_slot:
  "castSpriteLoop sliceView makeSlices F c v idx stripe s = Inr s' \<Longrightarrow> 0 < w c
    \<Longrightarrow> slotClear (w c) idx s \<Longrightarrow> slotClear (w c) idx s'"
proof (induction sliceView makeSlices F c v idx stripe s rule: castSpriteLoop.induct)
  case (1 sliceView makeSlices F c v idx stripe s)
  note u = castSpriteLoop.simps [of sliceView makeSlices F c v idx stripe s]
  show ?case
  proof (cases "stripe < drawEndX v")
    case False
    with "1.prems" show ?thesis by (simp add: u)
  next
    case True
    with "1.prems"(1) obtain s1 where
      b: "castSpriteStripe sliceView makeSlices F c v idx stripe s = Inr s1"
      and r: "castSpriteLoop sliceView makeSlices F c v idx (stripe + 1) s1 = Inr s'"
      by (auto simp: u split: sum.splits)
    from castSpriteStripe_slot [OF b "1.prems"(2,3)] have "slotClear (w c) idx s1" .
    from "1.IH" [OF True b r "1.prems"(2) this] show ?thesis .
  qed
qed

text \<open>
  C9. Screen column 0 never receives a sprite slice. For every camera with a viewport of
  positive width, every sprite and every interpretation of the float64 operations: when
  \<^verbatim>\<open>castSprite\<close> returns and the slot of the sprite holds a level, the level has the
  viewport width and its entries \<^verbatim>\<open>CurrTex[0]\<close>, \<^verbatim>\<open>Cts[0]\<close> and \<^verbatim>\<open>St[0]\<close> are nil,
  whatever the extent of the sprite and the z-buffer are: the test of line 563 requires
  \<open>stripe > 0\<close>.
\<close>

theorem castSprite_column0:
  assumes "castSprite sliceView makeSlices F c spriteOrdIndex = Inr c'"
    and "index (spriteLvls c') spriteOrdIndex = Inr (Some lvl)" "0 < w c"
  shows "CurrTex lvl ! 0 = None \<and> Cts lvl ! 0 = None \<and> St lvl ! 0 = None
       \<and> length (CurrTex lvl) = nat (w c) \<and> length (Cts lvl) = nat (w c) \<and> length (St lvl) = nat (w c)"
proof -
  from assms(1) obtain oi sprite s where
    "index (spriteOrder c) spriteOrdIndex = Inr oi" "index (sprites c) oi = Inr sprite"
    and lp: "castSpriteLoop sliceView makeSlices F c (castSpriteVars F c sprite) spriteOrdIndex
              (drawStartX (castSpriteVars F c sprite))
              \<lparr> sLvls = spriteLvls c, renderSprite = False, spriteSlices = ([], 0) \<rparr> = Inr s"
    and fin: "(if \<not> renderSprite s
                 then bindE (clearSpriteLevel (sLvls s) spriteOrdIndex) (\<lambda>ls. Inr (c\<lparr> spriteLvls := ls \<rparr>))
                 else Inr (c\<lparr> spriteLvls := sLvls s \<rparr>)) = Inr c'"
    by (auto simp: castSprite_def bindE_def Let_def split: sum.splits)
  have "slotClear (w c) spriteOrdIndex \<lparr> sLvls = spriteLvls c, renderSprite = False, spriteSlices = ([], 0) \<rparr>"
    by (simp add: slotClear_def)
  from castSpriteLoop_slot [OF lp assms(3) this] have sc: "slotClear (w c) spriteOrdIndex s" .
  have "column0Clear (w c) lvl"
  proof (cases "renderSprite s")
    case True
    with fin have "spriteLvls c' = sLvls s" by auto
    with sc True assms(2) show ?thesis by (auto simp: slotClear_def)
  next
    case False
    with fin obtain ls where "store (sLvls s) spriteOrdIndex None = Inr ls" "spriteLvls c' = ls"
      by (auto simp: bindE_def clearSpriteLevel_def split: sum.splits)
    with store_index [of "sLvls s" spriteOrdIndex None ls] assms(2) show ?thesis by simp
  qed
  then show ?thesis by (simp add: column0Clear_def)
qed

lemma castSpriteLoop_invisible:
  "\<forall>k. stripe \<le> k \<and> k < drawEndX v \<longrightarrow> stripeVisible F c v k = Inr False
    \<Longrightarrow> castSpriteLoop sliceView makeSlices F c v idx stripe s = Inr s"
proof (induction sliceView makeSlices F c v idx stripe s rule: castSpriteLoop.induct)
  case (1 sliceView makeSlices F c v idx stripe s)
  note u = castSpriteLoop.simps [of sliceView makeSlices F c v idx stripe s]
  show ?case
  proof (cases "stripe < drawEndX v")
    case False
    then show ?thesis by (simp add: u)
  next
    case True
    with "1.prems" have "stripeVisible F c v stripe = Inr False" by simp
    then have b: "castSpriteStripe sliceView makeSlices F c v idx stripe s = Inr s"
      by (simp add: castSpriteStripe_def bindE_def)
    have "castSpriteLoop sliceView makeSlices F c v idx (stripe + 1) s = Inr s"
      by (rule "1.IH" [OF True b]) (use "1.prems" in auto)
    with True b show ?thesis by (simp add: u)
  qed
qed

text \<open>
  C6. A sprite that no column shows clears its slot. Let the sprite of an order index
  exist and the index have a slot, and let every column \<open>k\<close> of the sprite's horizontal
  extent, \<open>drawStartX \<le> k < drawEndX\<close>, fail the test of line 563: the depth
  \<open>transformY\<close> is not positive, or \<open>k\<close> is not inside \<open>0 < k < w\<close>, or the z-buffer has an
  entry for \<open>k\<close> and the depth is not strictly less than it. Then the loop of
  \<^verbatim>\<open>castSprite\<close> makes no level and leaves its state as it was, and \<^verbatim>\<open>castSprite\<close> returns
  without a panic with nil in the slot of the sprite and every other slot unchanged. This
  holds for every interpretation of the float64 operations.
\<close>

theorem castSprite_occluded:
  assumes "index (spriteOrder c) spriteOrdIndex = Inr oi" "index (sprites c) oi = Inr sprite"
    and "0 \<le> spriteOrdIndex" "spriteOrdIndex < int (length (spriteLvls c))"
    and "\<forall>k. drawStartX (castSpriteVars F c sprite) \<le> k \<and> k < drawEndX (castSpriteVars F c sprite) \<longrightarrow>
           \<not> (flt F (flit F 0) (transformY (castSpriteVars F c sprite)) \<and> 0 < k \<and> k < w c)
         \<or> (k < int (length (zBuffer c))
            \<and> \<not> flt F (transformY (castSpriteVars F c sprite)) (zBuffer c ! nat k))"
  shows "castSprite sliceView makeSlices F c spriteOrdIndex
           = Inr (c\<lparr> spriteLvls := (spriteLvls c)[nat spriteOrdIndex := None] \<rparr>)
       \<and> castSpriteLoop sliceView makeSlices F c (castSpriteVars F c sprite) spriteOrdIndex
            (drawStartX (castSpriteVars F c sprite))
            \<lparr> sLvls = spriteLvls c, renderSprite = False, spriteSlices = ([], 0) \<rparr>
           = Inr \<lparr> sLvls = spriteLvls c, renderSprite = False, spriteSlices = ([], 0) \<rparr>"
proof -
  let ?v = "castSpriteVars F c sprite"
  let ?s = "\<lparr> sLvls = spriteLvls c, renderSprite = False, spriteSlices = ([], 0) \<rparr>"
  have inv: "\<forall>k. drawStartX ?v \<le> k \<and> k < drawEndX ?v \<longrightarrow> stripeVisible F c ?v k = Inr False"
  proof (intro allI impI)
    fix k assume "drawStartX ?v \<le> k \<and> k < drawEndX ?v"
    with assms(5) have "\<not> (flt F (flit F 0) (transformY ?v) \<and> 0 < k \<and> k < w c)
         \<or> (k < int (length (zBuffer c)) \<and> \<not> flt F (transformY ?v) (zBuffer c ! nat k))" by blast
    then show "stripeVisible F c ?v k = Inr False"
      by (auto simp: stripeVisible_def index_def bindE_def)
  qed
  have lp: "castSpriteLoop sliceView makeSlices F c ?v spriteOrdIndex (drawStartX ?v) ?s = Inr ?s"
    by (rule castSpriteLoop_invisible [OF inv])
  have "castSprite sliceView makeSlices F c spriteOrdIndex
           = Inr (c\<lparr> spriteLvls := (spriteLvls c)[nat spriteOrdIndex := None] \<rparr>)"
    using assms(3,4)
    by (simp add: castSprite_def assms(1,2) bindE_def Let_def lp clearSpriteLevel_def store_def)
  with lp show ?thesis by simp
qed

lemma spriteCamera_fields:
  "pos (spriteCamera sc z) = \<lparr> X = 1, Y = 1 \<rparr>" "dir (spriteCamera sc z) = \<lparr> X = 1, Y = 0 \<rparr>"
  "plane (spriteCamera sc z) = \<lparr> X = 0, Y = - halfFov \<rparr>"
  "w (spriteCamera sc z) = 8" "h (spriteCamera sc z) = 8" "pitch (spriteCamera sc z) = 0"
  "posZ (spriteCamera sc z) = 0" "texSize (spriteCamera sc z) = 64"
  "zBuffer (spriteCamera sc z) = replicate 8 z" "sprites (spriteCamera sc z) = [demoSprite sc]"
  "spriteOrder (spriteCamera sc z) = [0]" "spriteLvls (spriteCamera sc z) = replicate 16 None"
proof -
  from NewCamera_init_ok [of 8 demoSliceView 8 64 emptyGrid "[]" demoTex]
  obtain c where c: "NewCamera_init demoSliceView 8 8 64 [emptyGrid] demoTex = Inr c" by auto
  then have e: "spriteCamera sc z = c\<lparr> zBuffer := replicate 8 z, sprites := [demoSprite sc], spriteOrder := [0] \<rparr>"
    by (simp add: spriteCamera_def)
  note p = NewCamera_init_pose [OF c]
  have o: "h c = 8" "pitch c = 0" "posZ c = 0" "texSize c = 64" "spriteLvls c = replicate 16 None"
    using c by (auto simp: NewCamera_init_def Let_def bindE_def split: sum.splits if_splits)
  show "pos (spriteCamera sc z) = \<lparr> X = 1, Y = 1 \<rparr>" "dir (spriteCamera sc z) = \<lparr> X = 1, Y = 0 \<rparr>"
    "plane (spriteCamera sc z) = \<lparr> X = 0, Y = - halfFov \<rparr>"
    "w (spriteCamera sc z) = 8" "h (spriteCamera sc z) = 8" "pitch (spriteCamera sc z) = 0"
    "posZ (spriteCamera sc z) = 0" "texSize (spriteCamera sc z) = 64"
    "zBuffer (spriteCamera sc z) = replicate 8 z" "sprites (spriteCamera sc z) = [demoSprite sc]"
    "spriteOrder (spriteCamera sc z) = [0]" "spriteLvls (spriteCamera sc z) = replicate 16 None"
    by (simp_all add: e p o)
qed

lemma trunc_of_int [simp]: "trunc (of_int n) = n"
  by (simp add: trunc_def)

lemma trunc_numeral [simp]: "trunc (numeral n) = numeral n" "trunc 0 = 0" "trunc 1 = 1"
  using trunc_of_int [of "numeral n"] by (simp_all add: trunc_def)

lemma sdiv_eval:
  "(- 4 :: int) sdiv 2 = - 2" "(4 :: int) sdiv 2 = 2" "(8 :: int) sdiv 2 = 4"
  "(- 16 :: int) sdiv 2 = - 8" "(16 :: int) sdiv 2 = 8"
  by (simp_all add: signed_divide_int_def)

lemma demo_vars_narrow:
  "castSpriteVars RealOps (spriteCamera 1 z) (demoSprite 1) =
     \<lparr> transformX = 0, transformY = 2, spriteScreenX = 4, vMoveScreen = 0, spriteHeight = 4,
       drawStartY = 2, drawEndY = 6, spriteWidth = 4, drawStartX = 2, drawEndX = 6,
       spriteTex = Image 7, spriteTexRect = \<lparr> MinX = 0, MinY = 0, MaxX = 4, MaxY = 4 \<rparr>,
       spriteTexWidth = 4, spriteTexHeight = 4 \<rparr>"
  using halfFov_pos
  by (simp add: castSpriteVars_def RealOps_def spriteCamera_fields demoSprite_def Let_def sdiv_eval)

lemma demo_vars_wide:
  "castSpriteVars RealOps (spriteCamera 4 z) (demoSprite 4) = wideVars"
  using halfFov_pos
  by (simp add: castSpriteVars_def RealOps_def spriteCamera_fields demoSprite_def Let_def sdiv_eval wideVars_def)

theorem castSprite_occluded_witness:
  "castSprite demoSliceView demoMakeSlices RealOps (spriteCamera 1 1) 0
      = Inr ((spriteCamera 1 1)\<lparr> spriteLvls := replicate 16 None \<rparr>)
   \<and> drawStartX (castSpriteVars RealOps (spriteCamera 1 1) (demoSprite 1)) = 2
   \<and> drawEndX (castSpriteVars RealOps (spriteCamera 1 1) (demoSprite 1)) = 6
   \<and> transformY (castSpriteVars RealOps (spriteCamera 1 1) (demoSprite 1)) = 2
   \<and> zBuffer (spriteCamera 1 1) = replicate 8 1"
proof -
  let ?c = "spriteCamera 1 1"
  note f = spriteCamera_fields [of 1 1]
  note v = demo_vars_narrow [of 1]
  have 1: "index (spriteOrder ?c) 0 = Inr 0" by (simp add: f index_def)
  have 2: "index (sprites ?c) 0 = Inr (demoSprite 1)" by (simp add: f index_def)
  have 3: "(0::int) \<le> 0" by simp
  have 4: "0 < int (length (spriteLvls ?c))" by (simp add: f)
  have 5: "\<forall>k. drawStartX (castSpriteVars RealOps ?c (demoSprite 1)) \<le> k
              \<and> k < drawEndX (castSpriteVars RealOps ?c (demoSprite 1)) \<longrightarrow>
           \<not> (flt RealOps (flit RealOps 0) (transformY (castSpriteVars RealOps ?c (demoSprite 1))) \<and> 0 < k \<and> k < w ?c)
         \<or> (k < int (length (zBuffer ?c))
            \<and> \<not> flt RealOps (transformY (castSpriteVars RealOps ?c (demoSprite 1))) (zBuffer ?c ! nat k))"
    unfolding v by (auto simp: f RealOps_def)
  from castSprite_occluded [OF 1 2 3 4 5, of demoSliceView demoMakeSlices]
  have "castSprite demoSliceView demoMakeSlices RealOps ?c 0
           = Inr (?c\<lparr> spriteLvls := (spriteLvls ?c)[nat 0 := None] \<rparr>)" by (rule conjunct1)
  moreover have "(spriteLvls ?c)[nat 0 := None] = replicate 16 None"
    by (simp add: f list_eq_iff_nth_eq nth_list_update)
  ultimately show ?thesis unfolding v by (simp add: f)
qed

lemma wide_visible:
  "stripeVisible RealOps (spriteCamera 4 10) wideVars 0 = Inr False"
  "0 < k \<Longrightarrow> k < 8 \<Longrightarrow> stripeVisible RealOps (spriteCamera 4 10) wideVars k = Inr True"
  by (simp_all add: stripeVisible_def wideVars_def spriteCamera_fields RealOps_def index_def bindE_def)

lemma wide_tex:
  assumes "0 < k" "k < 8"
  shows "0 \<le> stripeTexX wideVars k" "stripeTexX wideVars k < 4"
    "stripeTexStartY (spriteCamera 4 10) wideVars = 1" "stripeTexEndY (spriteCamera 4 10) wideVars = 2"
proof -
  have e: "stripeTexX wideVars k = (64 * (k + 4)) div 256"
    using assms by (simp add: stripeTexX_def wideVars_def signed_divide_int_def sgn_if) 
  from assms show "0 \<le> stripeTexX wideVars k" "stripeTexX wideVars k < 4" unfolding e by simp_all
  show "stripeTexStartY (spriteCamera 4 10) wideVars = 1" "stripeTexEndY (spriteCamera 4 10) wideVars = 2"
    by (simp_all add: stripeTexStartY_def stripeTexEndY_def wideVars_def spriteCamera_fields
        signed_divide_int_def Let_def)
qed

lemma readyState_alt:
  "readyState s \<longleftrightarrow> length (sLvls s) = 16
     \<and> (renderSprite s \<longrightarrow> spriteSlices s = demoMakeSlices 4 4 0 0
          \<and> (\<exists>lvl. sLvls s ! 0 = Some lvl \<and> readyLevel lvl))"
  by (simp add: readyState_def readyLevel_def)

lemma store_ok: "0 \<le> i \<Longrightarrow> i < int (length xs) \<Longrightarrow> store xs i v = Inr (xs[nat i := v])"
  by (simp add: store_def)

lemma index_ok: "0 \<le> i \<Longrightarrow> i < int (length xs) \<Longrightarrow> index xs i = Inr (xs ! nat i)"
  by (simp add: index_def)

lemma list_all_update: "list_all P xs \<Longrightarrow> P v \<Longrightarrow> list_all P (xs[i := v])"
  unfolding list_all_iff using set_update_subset_insert [of xs i v] by fastforce

lemma writeStripe_ready:
  assumes "readyLevel lvl" "0 \<le> texX" "texX < 4" "0 < k" "k < 8"
  shows "\<exists>lvl'. writeStripe F v k texX a b (fst (demoMakeSlices 4 4 0 0)) (Some lvl) = Inr lvl' \<and> readyLevel lvl'"
proof -
  from assms(1) have len: "length (Cts lvl) = 8" "length (CurrTex lvl) = 8" "length (St lvl) = 8"
    "length (Sv lvl) = 8" and sv: "list_all (\<lambda>r. r \<noteq> None) (Sv lvl)"
    by (simp_all add: readyLevel_def)
  let ?sl = "Some \<lparr> MinX = 0 + int (nat texX), MinY = 0, MaxX = 0 + int (nat texX) + 1, MaxY = 0 + 4 \<rparr>"
  have i1: "index (fst (demoMakeSlices 4 4 0 0)) texX = Inr ?sl"
    using assms(2,3) by (simp add: demoMakeSlices_def index_def)
  have "nat k < length (Sv lvl)" using assms(4,5) len(4) by simp
  with sv have "Sv lvl ! nat k \<noteq> None" unfolding list_all_length by blast
  then obtain svr where svr: "Sv lvl ! nat k = Some svr" by blast
  have kk: "0 \<le> k" using assms(4) by simp
  have "writeStripe F v k texX a b (fst (demoMakeSlices 4 4 0 0)) (Some lvl)
      = Inr (lvl\<lparr> Sv := (Sv lvl)[nat k := Some (svr\<lparr> MinY := drawStartY v + 1, MaxY := drawEndY v \<rparr>)],
                 Cts := (Cts lvl)[nat k := ?sl,
                          nat k := Some (\<lparr> MinX = 0 + int (nat texX), MinY = 0, MaxX = 0 + int (nat texX) + 1, MaxY = 0 + 4 \<rparr>
                                     \<lparr> MinY := MinY (spriteTexRect v) + a + 1, MaxY := MinY (spriteTexRect v) + b \<rparr>)],
                 St := (St lvl)[nat k := Some (spriteTint F (transformY v))],
                 CurrTex := (CurrTex lvl)[nat k := Some (spriteTex v)] \<rparr>)"
    unfolding writeStripe_def
    by (simp add: deref_def i1 bindE_def store_ok [OF kk] index_ok [OF kk] len assms(5) svr)
  moreover have "readyLevel (lvl\<lparr> Sv := (Sv lvl)[nat k := Some (svr\<lparr> MinY := drawStartY v + 1, MaxY := drawEndY v \<rparr>)],
                 Cts := (Cts lvl)[nat k := ?sl,
                          nat k := Some (\<lparr> MinX = 0 + int (nat texX), MinY = 0, MaxX = 0 + int (nat texX) + 1, MaxY = 0 + 4 \<rparr>
                                     \<lparr> MinY := MinY (spriteTexRect v) + a + 1, MaxY := MinY (spriteTexRect v) + b \<rparr>)],
                 St := (St lvl)[nat k := Some (spriteTint F (transformY v))],
                 CurrTex := (CurrTex lvl)[nat k := Some (spriteTex v)] \<rparr>)"
    using len sv by (simp add: readyLevel_def list_all_update)
  ultimately show ?thesis by blast
qed

lemma wide_stripe_ready:
  assumes "0 < k" "k < 8" "readyState s"
  shows "\<exists>s'. castSpriteStripe demoSliceView demoMakeSlices RealOps (spriteCamera 4 10) wideVars 0 k s = Inr s'
            \<and> readyState s' \<and> renderSprite s'"
proof -
  let ?c = "spriteCamera 4 10"
  note f = spriteCamera_fields [of 4 10]
  from assms(3) have len: "length (sLvls s) = 16" by (simp add: readyState_alt)
  define acq where "acq = (if \<not> renderSprite s
               then bindE (makeSpriteLevel demoSliceView ?c 0 (sLvls s)) (\<lambda>(lvl, ls).
                      Inr (Some lvl,
                           s\<lparr> sLvls := ls, renderSprite := True,
                              spriteSlices := demoMakeSlices (spriteTexWidth wideVars) (spriteTexHeight wideVars)
                                                (MinX (spriteTexRect wideVars)) (MinY (spriteTexRect wideVars)) \<rparr>))
               else bindE (index (sLvls s) 0) (\<lambda>l. Inr (l, s)))"
  have "\<exists>lvl s1. acq = Inr (Some lvl, s1) \<and> readyLevel lvl \<and> length (sLvls s1) = 16 \<and> renderSprite s1
          \<and> spriteSlices s1 = demoMakeSlices 4 4 0 0"
  proof (cases "renderSprite s")
    case True
    with assms(3) obtain lvl where "sLvls s ! 0 = Some lvl" "readyLevel lvl" "spriteSlices s = demoMakeSlices 4 4 0 0"
      by (auto simp: readyState_alt)
    with True len show ?thesis by (simp add: acq_def index_def bindE_def)
  next
    case False
    let ?lvl = "\<lparr> Sv = demoSliceView 8 8, Cts = replicate 8 None, St = replicate 8 None, CurrTex = replicate 8 None \<rparr>"
    have m: "makeSpriteLevel demoSliceView ?c 0 (sLvls s) = Inr (?lvl, (sLvls s)[0 := Some ?lvl])"
      by (simp add: makeSpriteLevel_def Let_def f store_def len bindE_def)
    have "readyLevel ?lvl"
      by (simp add: readyLevel_def demoSliceView_def list_all_length)
    with False m len show ?thesis by (simp add: acq_def bindE_def wideVars_def)
  qed
  then obtain lvl s1 where acq: "acq = Inr (Some lvl, s1)" and rl: "readyLevel lvl"
    and l1: "length (sLvls s1) = 16" and rs: "renderSprite s1"
    and sl: "spriteSlices s1 = demoMakeSlices 4 4 0 0" by blast
  note tx = wide_tex [OF assms(1,2)]
  from writeStripe_ready [OF rl tx(1,2) assms(1,2), of RealOps wideVars 1 2]
  obtain lvl' where w: "writeStripe RealOps wideVars k (stripeTexX wideVars k) 1 2
                          (fst (demoMakeSlices 4 4 0 0)) (Some lvl) = Inr lvl'"
    and rl': "readyLevel lvl'" by blast
  have cap: "snd (demoMakeSlices 4 4 0 0) = 4" by (simp add: demoMakeSlices_def)
  have wv: "spriteWidth wideVars = 16" "spriteHeight wideVars = 16" "spriteTexWidth wideVars = 4"
    by (simp_all add: wideVars_def)
  have "castSpriteStripe demoSliceView demoMakeSlices RealOps ?c wideVars 0 k s
          = Inr (s1\<lparr> sLvls := (sLvls s1)[0 := Some lvl'] \<rparr>)"
    unfolding castSpriteStripe_def acq_def [symmetric]
    using tx(1,2)
    by (simp add: wide_visible(2) [OF assms(1,2)] bindE_def acq sl cap wv tx(3,4) w store_def l1)
  moreover have "readyState (s1\<lparr> sLvls := (sLvls s1)[0 := Some lvl'] \<rparr>)"
    using l1 rs sl rl' by (simp add: readyState_alt)
  ultimately show ?thesis using rs by auto
qed

lemma wide_loop_ready:
  "0 < k \<Longrightarrow> k \<le> 7 \<Longrightarrow> readyState s \<Longrightarrow> (k < 7 \<or> renderSprite s)
    \<Longrightarrow> \<exists>s'. castSpriteLoop demoSliceView demoMakeSlices RealOps (spriteCamera 4 10) wideVars 0 k s = Inr s'
            \<and> readyState s' \<and> renderSprite s'"
proof (induction "nat (7 - k)" arbitrary: k s)
  case 0
  then have k: "k = 7" by simp
  with 0 show ?case by (simp add: castSpriteLoop.simps [of _ _ _ _ _ _ 7] wideVars_def)
next
  case (Suc n)
  then have k: "k < 7" by simp
  from wide_stripe_ready [OF Suc.prems(1) _ Suc.prems(3)] k
  obtain s1 where b: "castSpriteStripe demoSliceView demoMakeSlices RealOps (spriteCamera 4 10) wideVars 0 k s = Inr s1"
    and r1: "readyState s1" "renderSprite s1" by auto
  from Suc.hyps(2) have n: "n = nat (7 - (k + 1))" by simp
  from Suc.hyps(1) [OF n _ _ r1(1)] k Suc.prems(1) r1(2)
  obtain s' where "castSpriteLoop demoSliceView demoMakeSlices RealOps (spriteCamera 4 10) wideVars 0 (k + 1) s1 = Inr s'"
    "readyState s'" "renderSprite s'" by auto
  with b k show ?case
    by (simp add: castSpriteLoop.simps [of _ _ _ _ _ _ k] wideVars_def)
qed

theorem castSprite_column0_witness:
  "0 < w (spriteCamera 4 10)
   \<and> drawStartX (castSpriteVars RealOps (spriteCamera 4 10) (demoSprite 4)) = 0
   \<and> transformY (castSpriteVars RealOps (spriteCamera 4 10) (demoSprite 4)) < zBuffer (spriteCamera 4 10) ! 0
   \<and> (\<exists>c' lvl. castSprite demoSliceView demoMakeSlices RealOps (spriteCamera 4 10) 0 = Inr c'
        \<and> index (spriteLvls c') 0 = Inr (Some lvl)
        \<and> CurrTex lvl ! 0 = None \<and> Cts lvl ! 0 = None \<and> St lvl ! 0 = None \<and> length (CurrTex lvl) = 8)"
proof -
  let ?c = "spriteCamera 4 10"
  note f = spriteCamera_fields [of 4 10]
  note v = demo_vars_wide [of 10]
  let ?s0 = "\<lparr> sLvls = spriteLvls ?c, renderSprite = False, spriteSlices = ([], 0) \<rparr>"
  have r0: "readyState ?s0" by (simp add: readyState_alt f)
  have b0: "castSpriteStripe demoSliceView demoMakeSlices RealOps ?c wideVars 0 0 ?s0 = Inr ?s0"
    by (simp add: castSpriteStripe_def wide_visible(1) bindE_def)
  from wide_loop_ready [of 1 ?s0] r0
  obtain s where lp1: "castSpriteLoop demoSliceView demoMakeSlices RealOps ?c wideVars 0 1 ?s0 = Inr s"
    and rs: "readyState s" "renderSprite s" by auto
  have lp: "castSpriteLoop demoSliceView demoMakeSlices RealOps ?c wideVars 0 0 ?s0 = Inr s"
    using b0 lp1 by (simp add: castSpriteLoop.simps [of _ _ _ _ _ _ 0] wideVars_def)
  have dsx: "drawStartX wideVars = 0" by (simp add: wideVars_def)
  have cs: "castSprite demoSliceView demoMakeSlices RealOps ?c 0 = Inr (?c\<lparr> spriteLvls := sLvls s \<rparr>)"
    unfolding castSprite_def
    by (simp add: f index_def bindE_def v Let_def dsx lp [unfolded f] rs(2))
  from rs obtain lvl where lvl: "sLvls s ! 0 = Some lvl" and len: "length (sLvls s) = 16"
    by (auto simp: readyState_alt)
  then have ix: "index (spriteLvls (?c\<lparr> spriteLvls := sLvls s \<rparr>)) 0 = Inr (Some lvl)"
    by (simp add: index_def)
  have wpos: "0 < w ?c" by (simp add: f)
  from castSprite_column0 [OF cs ix wpos]
  have "CurrTex lvl ! 0 = None \<and> Cts lvl ! 0 = None \<and> St lvl ! 0 = None \<and> length (CurrTex lvl) = 8"
    by (simp add: f)
  with cs ix have "\<exists>c' lvl. castSprite demoSliceView demoMakeSlices RealOps ?c 0 = Inr c'
        \<and> index (spriteLvls c') 0 = Inr (Some lvl)
        \<and> CurrTex lvl ! 0 = None \<and> Cts lvl ! 0 = None \<and> St lvl ! 0 = None \<and> length (CurrTex lvl) = 8"
    by blast
  moreover have "transformY (castSpriteVars RealOps ?c (demoSprite 4)) < zBuffer ?c ! 0"
    unfolding v by (simp add: f wideVars_def)
  moreover have "drawStartX (castSpriteVars RealOps ?c (demoSprite 4)) = 0" unfolding v by (rule dsx)
  ultimately show ?thesis using wpos by blast
qed

end
